theory Spec2Isabelle
  imports Complex_Main
begin

section \<open>Face comparison service (app.py)\<close>

text \<open>
  The service is one Python module: a gallery loader run once at import time
  (\<open>load_known_faces\<close>), a notifier with bounded retry (\<open>send_to_nodejs\<close>) and
  the request handler of \<open>POST /compare-face\<close> (\<open>compare_faces\<close>).

  What the module only calls is taken as a parameter of the model:
  \<^item> the face library's decoder and encoder (\<open>load_image_file\<close> followed by
    \<open>face_encodings\<close>): a function from a path or from uploaded bytes to either the text
    of the exception raised (\<open>Inl\<close>) or the list of embeddings found (\<open>Inr\<close>);
  \<^item> the embedding distance \<open>distance\<close> behind \<open>face_distance\<close> and the library's
    \<open>compare_faces\<close>;
  \<^item> the downstream endpoint: \<open>post i\<close> is what the \<open>i\<close>-th attempt of
    \<open>requests.post\<close> yields inside one call of the notifier.

  A Python float is the real number it denotes, and the arithmetic on floats rounds
  each result to the nearest binary64 value (\<open>round_double\<close> below); NaN, infinities
  and overflow are outside the model. Strings and uploaded bytes are \<open>string\<close>.
  Logging and printing are left out; the effects that are kept are the events of the
  trace below.
\<close>

subsection \<open>Configuration\<close>

definition NODE_JS_URL :: string where
  "NODE_JS_URL = ''https://check-name-server.vercel.app/api/attendance''"

definition FACE_FOLDER :: string where
  "FACE_FOLDER = ''Face/''"

definition TOLERANCE :: real where
  "TOLERANCE = 5 / 10"

definition MAX_RETRIES :: nat where
  "MAX_RETRIES = 3"

definition RETRY_DELAY :: nat where
  "RETRY_DELAY = 1"

definition MIN_CONFIDENCE :: real where
  "MIN_CONFIDENCE = 65"

subsection \<open>JSON values, dictionaries, responses, events\<close>

datatype json =
  JNull | JBool bool | JInt int | JFloat real | JStr string | JList "json list"
| JObj "(string \<times> json) list"

type_synonym dict = "(string \<times> json) list"

text \<open>\<open>d[k] = v\<close> on a Python dict: an existing key keeps its place, a new key goes last.\<close>

fun setitem :: "dict \<Rightarrow> string \<Rightarrow> json \<Rightarrow> dict" where
  "setitem [] k v = [(k, v)]"
| "setitem ((k', v') # d) k v = (if k' = k then (k, v) # d else (k', v') # setitem d k v)"

text \<open>A Flask response: the JSON body and the HTTP status (\<open>jsonify(..)\<close> alone is 200).\<close>

record response =
  body :: dict
  http_status :: nat

text \<open>
  The effects of the notifier, in order: \<open>Post data\<close> for each \<open>requests.post\<close> with
  the JSON \<open>data\<close>, \<open>Sleep s\<close> for each \<open>time.sleep(s)\<close>.
\<close>

datatype net_event = Post dict | Sleep nat

text \<open>
  The trace of a request: \<open>Compare q\<close> when the handler evaluates the detected embedding
  \<open>q\<close> against the gallery, \<open>Notify data\<close> when it calls \<open>send_to_nodejs(data)\<close>,
  \<open>Net ev\<close> for each effect of the notifier.
\<close>

datatype 'e event = Compare 'e | Notify dict | Net net_event

text \<open>
  What \<open>response.json()\<close> does with the body of a response: it returns the parsed
  value (Python's \<open>None\<close> for the body \<open>null\<close>); or it raises
  \<open>requests.exceptions.JSONDecodeError\<close> on a body that is not JSON, which is a
  \<open>RequestException\<close> (requests 2.27 and later); or it raises another exception, as
  RecursionError on a deeply nested body (and the ValueError of earlier versions of
  requests on a body that is not JSON).
\<close>

datatype json_result = Parsed json | JSONDecodeError string | JsonRaises string

text \<open>
  What one \<open>requests.post\<close> yields: a response with its status code and what
  \<open>response.json()\<close> would do with its body, or a \<open>requests.RequestException\<close>
  with its text, or an exception of another class.
\<close>

datatype http_result = Response nat json_result | RequestException string | PostRaises string

text \<open>
  The exceptions raised inside the handler's \<open>try\<close>: the module's own
  \<open>FaceRecognitionError\<close> with its message, the IndexError of a list lookup, and any
  other exception with its text.
\<close>

datatype exn = FaceRecognitionError string | IndexError | OtherException string

subsection \<open>Strings: \<open>str.lower\<close>, \<open>str.endswith\<close>, \<open>os.path.splitext\<close>, \<open>:.2f\<close>\<close>

text \<open>Only the letters A to Z change; no other character lowers to an ASCII one of the
  suffixes tested below.\<close>

definition lower_char :: "char \<Rightarrow> char" where
  "lower_char c =
     (case map_of (zip ''ABCDEFGHIJKLMNOPQRSTUVWXYZ'' ''abcdefghijklmnopqrstuvwxyz'') c of
        Some l \<Rightarrow> l
      | None \<Rightarrow> c)"

definition lower :: "string \<Rightarrow> string" where
  "lower s = map lower_char s"

definition endswith :: "string \<Rightarrow> string \<Rightarrow> bool" where
  "endswith s suf = (length suf \<le> length s \<and> drop (length s - length suf) s = suf)"

text \<open>\<open>s.endswith((a, b, c))\<close>: some member of the tuple is a suffix.\<close>

definition endswith_any :: "string \<Rightarrow> string list \<Rightarrow> bool" where
  "endswith_any s sufs = list_ex (endswith s) sufs"

text \<open>\<open>s.rfind(c)\<close>: the index of the last \<open>c\<close>, or \<open>-1\<close>.\<close>

fun rfind_from :: "char \<Rightarrow> string \<Rightarrow> int \<Rightarrow> int \<Rightarrow> int" where
  "rfind_from c [] i found = found"
| "rfind_from c (x # xs) i found = rfind_from c xs (i + 1) (if x = c then i else found)"

definition rfind :: "string \<Rightarrow> char \<Rightarrow> int" where
  "rfind s c = rfind_from c s 0 (- 1)"

text \<open>
  \<open>os.path.splitext\<close> (posixpath, through \<open>genericpath._splitext\<close>): the extension
  starts at the last dot of the last path component, unless only dots precede that dot
  in the component; then the extension is empty.
\<close>

definition splitext :: "string \<Rightarrow> string \<times> string" where
  "splitext p =
     (let sepIndex = rfind p CHR ''/'';
          dotIndex = rfind p CHR ''.''
      in if dotIndex > sepIndex \<and>
            list_ex (\<lambda>c. c \<noteq> CHR ''.'')
              (take (nat (dotIndex - (sepIndex + 1))) (drop (nat (sepIndex + 1)) p))
         then (take (nat dotIndex) p, drop (nat dotIndex) p)
         else (p, []))"

definition digit_char :: "nat \<Rightarrow> char" where
  "digit_char d = ''0123456789'' ! (d mod 10)"

fun digits :: "nat \<Rightarrow> string" where
  "digits n = (if n < 10 then [digit_char n] else digits (n div 10) @ [digit_char (n mod 10)])"

text \<open>Rounding to the nearest integer, ties to even, as the \<open>f\<close> format rounds.\<close>

definition round_half_even :: "real \<Rightarrow> int" where
  "round_half_even y =
     (let f = \<lfloor>y\<rfloor>; r = y - of_int f
      in if r < 1 / 2 then f else if 1 / 2 < r then f + 1 else if even f then f else f + 1)"

text \<open>\<open>f'{x:.2f}'\<close>: sign, integer part, a dot and two decimals.\<close>

definition format_2f :: "real \<Rightarrow> string" where
  "format_2f x =
     (let n = nat (round_half_even (\<bar>x\<bar> * 100))
      in (if x < 0 then ''-'' else []) @ digits (n div 100) @ ''.'' @
         [digit_char (n mod 100 div 10), digit_char (n mod 10)])"

subsection \<open>Arithmetic on floats\<close>

definition pow2 :: "int \<Rightarrow> real" where
  "pow2 k = (if 0 \<le> k then 2 ^ nat k else 1 / 2 ^ nat (- k))"

text \<open>
  The binary exponent of a positive number: \<open>binade fuel m e\<close> halves or doubles \<open>m\<close>
  into the interval from 1 to 2 and counts the steps in \<open>e\<close>. Every binary64 value
  is reached within 1100 steps.
\<close>

fun binade :: "nat \<Rightarrow> real \<Rightarrow> int \<Rightarrow> int" where
  "binade 0 m e = e"
| "binade (Suc fuel) m e =
     (if m < 1 then binade fuel (m * 2) (e - 1)
      else if 2 \<le> m then binade fuel (m / 2) (e + 1)
      else e)"

text \<open>
  Rounding to the nearest binary64 value, ties to the even significand (IEEE 754
  round-to-nearest-even): 53 significant bits above the exponent \<open>-1022\<close>, multiples of
  \<open>2 ^ -1074\<close> below it.
\<close>

definition round_double :: "real \<Rightarrow> real" where
  "round_double x =
     (if x = 0 then 0
      else (let q = pow2 (max (binade 1100 \<bar>x\<bar> 0) (- 1022) - 52)
            in of_int (round_half_even (x / q)) * q))"

definition fsub :: "real \<Rightarrow> real \<Rightarrow> real" where
  "fsub a b = round_double (a - b)"

definition fmul :: "real \<Rightarrow> real \<Rightarrow> real" where
  "fmul a b = round_double (a * b)"

subsection \<open>The gallery loader: \<open>load_known_faces\<close>\<close>

text \<open>
  The configured folder as the loader sees it: \<open>os.path.exists\<close> is false
  (\<open>Missing\<close>); or it exists and \<open>os.listdir\<close> raises, as for a regular file
  (\<open>NotListable\<close>, an exception no \<open>try\<close> of the loader covers); or it lists
  its entries in the order of \<open>os.listdir\<close>.
\<close>

datatype folder = Missing | NotListable string | Listing "string list"

text \<open>
  The loop over the listing. \<open>os.path.join\<close> of the folder \<open>Face/\<close> and an entry of
  the listing is their concatenation; the \<open>try\<close> covers the decoding and the encoding,
  both inside \<open>load\<close>.
\<close>

fun load_loop ::
  "(string \<Rightarrow> string + 'e list) \<Rightarrow> string list \<Rightarrow> 'e list \<Rightarrow> string list \<Rightarrow> 'e list \<times> string list"
where
  "load_loop load [] known_face_encodings known_face_names =
     (known_face_encodings, known_face_names)"
| "load_loop load (filename # rest) known_face_encodings known_face_names =
     (if endswith_any (lower filename) [''.jpg'', ''.jpeg'', ''.png''] then
        (case load (FACE_FOLDER @ filename) of
           Inl e \<Rightarrow> load_loop load rest known_face_encodings known_face_names
         | Inr face_encodings \<Rightarrow>
             (case face_encodings of
                face_encoding # _ \<Rightarrow>
                  load_loop load rest (known_face_encodings @ [face_encoding])
                    (known_face_names @ [fst (splitext filename)])
              | [] \<Rightarrow> load_loop load rest known_face_encodings known_face_names))
      else load_loop load rest known_face_encodings known_face_names)"

definition load_known_faces ::
  "(string \<Rightarrow> string + 'e list) \<Rightarrow> folder \<Rightarrow> string + 'e list \<times> string list"
where
  "load_known_faces load dir =
     (case dir of
        Missing \<Rightarrow> Inr ([], [])
      | NotListable e \<Rightarrow> Inl e
      | Listing filenames \<Rightarrow> Inr (load_loop load filenames [] []))"

subsection \<open>The notifier: \<open>send_to_nodejs\<close>\<close>

text \<open>
  The loop \<open>for attempt in range(retries)\<close>, from \<open>attempt\<close> on: what the call ends
  in and the events in order. The call returns a JSON value (\<open>JNull\<close> is \<open>None\<close>,
  also when the loop runs out), or an exception that is not a \<open>RequestException\<close>
  leaves it. \<open>response.json()\<close> is called inside the \<open>try\<close>, so its
  \<open>JSONDecodeError\<close> is caught like an error of \<open>requests.post\<close>.
\<close>

function send_loop ::
  "(nat \<Rightarrow> http_result) \<Rightarrow> dict \<Rightarrow> nat \<Rightarrow> nat \<Rightarrow> (exn + json) \<times> net_event list"
where
  "send_loop post data retries attempt =
     (if attempt < retries then
        (case post attempt of
           Response status_code json_result \<Rightarrow>
             if status_code = 200 then
               (case json_result of
                  Parsed json_body \<Rightarrow> (Inr json_body, [Post data])
                | JSONDecodeError e \<Rightarrow>
                    (let (r, evs) = send_loop post data retries (attempt + 1)
                     in (r, Post data #
                            (if attempt < retries - 1 then [Sleep RETRY_DELAY] else []) @ evs))
                | JsonRaises e \<Rightarrow> (Inl (OtherException e), [Post data]))
             else
               (Inr (JObj [(''status'', JStr ''partial_success''),
                           (''message'', JStr ''Data sent but Node.js returned non-200 status''),
                           (''node_status'', JInt (int status_code))]),
                [Post data])
         | RequestException e \<Rightarrow>
             (let (r, evs) = send_loop post data retries (attempt + 1)
              in (r, Post data # (if attempt < retries - 1 then [Sleep RETRY_DELAY] else []) @ evs))
         | PostRaises e \<Rightarrow> (Inl (OtherException e), [Post data]))
      else (Inr JNull, []))"
  by pat_completeness auto
termination
  by (relation "measure (\<lambda>(post, data, retries, attempt). retries - attempt)") auto

declare send_loop.simps [simp del]

definition send_to_nodejs ::
  "(nat \<Rightarrow> http_result) \<Rightarrow> dict \<Rightarrow> nat \<Rightarrow> (exn + json) \<times> net_event list"
where
  "send_to_nodejs post data retries = send_loop post data retries 0"

text \<open>
  The trace of \<open>n\<close> attempts that all fail, as the specification words it: \<open>n\<close>
  outbound calls, with a sleep of the retry delay between consecutive calls and none
  after the last.
\<close>

fun retry_trace :: "dict \<Rightarrow> nat \<Rightarrow> net_event list" where
  "retry_trace data 0 = []"
| "retry_trace data (Suc 0) = [Post data]"
| "retry_trace data (Suc (Suc n)) = Post data # Sleep RETRY_DELAY # retry_trace data (Suc n)"

text \<open>
  The two ways an attempt can end other than in a value returned: in an exception the
  loop catches and retries (\<open>caught\<close>: a \<open>RequestException\<close> of the call, or of
  \<open>response.json()\<close> after a 200), or in an exception that leaves the notifier
  (\<open>escapes\<close>).
\<close>

fun caught :: "http_result \<Rightarrow> bool" where
  "caught (RequestException e) = True"
| "caught (Response status_code (JSONDecodeError e)) = (status_code = 200)"
| "caught (Response status_code (Parsed v)) = False"
| "caught (Response status_code (JsonRaises e)) = False"
| "caught (PostRaises e) = False"

fun escapes :: "http_result \<Rightarrow> bool" where
  "escapes (PostRaises e) = True"
| "escapes (Response status_code (JsonRaises e)) = (status_code = 200)"
| "escapes (Response status_code (Parsed v)) = False"
| "escapes (Response status_code (JSONDecodeError e)) = False"
| "escapes (RequestException e) = False"

subsection \<open>The request handler: \<open>compare_faces\<close>\<close>

text \<open>The face library: distances to every gallery entry, and the flags within tolerance.\<close>

definition face_distance :: "('e \<Rightarrow> 'e \<Rightarrow> real) \<Rightarrow> 'e list \<Rightarrow> 'e \<Rightarrow> real list" where
  "face_distance distance known face_encoding = map (\<lambda>k. distance k face_encoding) known"

definition lib_compare_faces ::
  "('e \<Rightarrow> 'e \<Rightarrow> real) \<Rightarrow> 'e list \<Rightarrow> 'e \<Rightarrow> real \<Rightarrow> bool list"
where
  "lib_compare_faces distance known face_encoding tolerance =
     map (\<lambda>d. d \<le> tolerance) (face_distance distance known face_encoding)"

text \<open>\<open>xs.index(x)\<close>: the first position of \<open>x\<close> (the length when there is none).\<close>

fun index :: "'a list \<Rightarrow> 'a \<Rightarrow> nat" where
  "index [] x = 0"
| "index (y # ys) x = (if y = x then 0 else Suc (index ys x))"

text \<open>
  Python's truth value of the notifier's result: \<open>None\<close>, \<open>False\<close>, zero and the
  empty string, list and dict are false.
\<close>

fun truthy :: "json \<Rightarrow> bool" where
  "truthy JNull = False"
| "truthy (JBool b) = b"
| "truthy (JInt n) = (n \<noteq> 0)"
| "truthy (JFloat x) = (x \<noteq> 0)"
| "truthy (JStr s) = (s \<noteq> [])"
| "truthy (JList xs) = (xs \<noteq> [])"
| "truthy (JObj d) = (d \<noteq> [])"

definition error_response :: "string \<Rightarrow> nat \<Rightarrow> response" where
  "error_response message code =
     \<lparr>body = [(''status'', JStr ''error''), (''message'', JStr message)], http_status = code\<rparr>"

definition not_found_response :: response where
  "not_found_response =
     \<lparr>body = [(''status'', JStr ''not_found''), (''message'', JStr ''No Match Found''),
              (''name'', JNull), (''confidence'', JStr ''0%'')],
      http_status = 200\<rparr>"

text \<open>
  The body of \<open>if True in matches\<close>: the response for the entry at the first true flag.
  The lookup \<open>known_face_names[best_match_index]\<close> raises IndexError past the end of
  the list. The notifier is called with its default number of attempts, \<open>MAX_RETRIES\<close>;
  an exception that leaves it leaves the handler's \<open>try\<close> block too.
\<close>

definition on_match ::
  "(nat \<Rightarrow> http_result) \<Rightarrow> string list \<Rightarrow> bool list \<Rightarrow> real list \<Rightarrow> (exn + response) \<times> 'e event list"
where
  "on_match post known_face_names matches face_distances =
     (let best_match_index = index matches True in
      if best_match_index < length known_face_names then
        (let matched_name = known_face_names ! best_match_index;
             confidence = fmul (fsub 1 (face_distances ! best_match_index)) 100;
             result_data = [(''name'', JStr matched_name),
                            (''confidence'', JStr (format_2f confidence @ ''%''))];
             response_data = [(''status'', JStr ''success''),
                              (''message'', JStr (''Match Found! Name: '' @ matched_name)),
                              (''name'', JStr matched_name),
                              (''confidence'', JStr (format_2f confidence @ ''%''))]
         in if confidence \<ge> MIN_CONFIDENCE then
              (case send_to_nodejs post result_data MAX_RETRIES of
                 (Inl e, evs) \<Rightarrow> (Inl e, Notify result_data # map Net evs)
               | (Inr nodejs_response, evs) \<Rightarrow>
                   (Inr \<lparr>body =
                           (if truthy nodejs_response
                            then setitem response_data ''node_response'' nodejs_response
                            else setitem response_data ''node_status''
                                   (JStr ''Data sent but no response from Node.js'')),
                         http_status = 200\<rparr>,
                    Notify result_data # map Net evs))
            else
              (Inr \<lparr>body =
                      setitem
                        (setitem response_data ''message''
                           (JStr (''Match found but confidence too low ('' @ format_2f confidence @ ''%)'')))
                        ''node_status'' (JStr ''Data not sent due to low confidence''),
                    http_status = 200\<rparr>,
               []))
      else (Inl IndexError, []))"

text \<open>The loop \<open>for face_encoding in face_encodings\<close> and what follows it.\<close>

fun match_loop ::
  "('e \<Rightarrow> 'e \<Rightarrow> real) \<Rightarrow> (nat \<Rightarrow> http_result) \<Rightarrow> 'e list \<Rightarrow> string list \<Rightarrow> 'e list \<Rightarrow>
   (exn + response) \<times> 'e event list"
where
  "match_loop distance post known_face_encodings known_face_names [] = (Inr not_found_response, [])"
| "match_loop distance post known_face_encodings known_face_names (face_encoding # rest) =
     (let matches = lib_compare_faces distance known_face_encodings face_encoding TOLERANCE;
          face_distances = face_distance distance known_face_encodings face_encoding;
          (r, evs) =
            (if True \<in> set matches then on_match post known_face_names matches face_distances
             else match_loop distance post known_face_encodings known_face_names rest)
      in (r, Compare face_encoding # evs))"

text \<open>The \<open>try\<close> block of the handler, for the bytes read from the uploaded file.\<close>

definition process_image ::
  "(string \<Rightarrow> string + 'e list) \<Rightarrow> ('e \<Rightarrow> 'e \<Rightarrow> real) \<Rightarrow> (nat \<Rightarrow> http_result) \<Rightarrow>
   'e list \<Rightarrow> string list \<Rightarrow> string \<Rightarrow> (exn + response) \<times> 'e event list"
where
  "process_image encode distance post known_face_encodings known_face_names image_data =
     (if image_data = [] then (Inl (FaceRecognitionError ''Empty image data''), [])
      else
        (case encode image_data of
           Inl e \<Rightarrow> (Inl (OtherException e), [])
         | Inr face_encodings \<Rightarrow>
             if face_encodings = []
             then (Inr (error_response ''No face detected in uploaded image'' 400), [])
             else match_loop distance post known_face_encodings known_face_names face_encodings))"

text \<open>
  The handler. \<open>image_field\<close> is the content of the multipart field \<open>image\<close>,
  \<open>None\<close> when the request has no such field; the result is the response and the trace of the request.
\<close>

definition compare_faces ::
  "(string \<Rightarrow> string + 'e list) \<Rightarrow> ('e \<Rightarrow> 'e \<Rightarrow> real) \<Rightarrow> (nat \<Rightarrow> http_result) \<Rightarrow>
   'e list \<Rightarrow> string list \<Rightarrow> string option \<Rightarrow> response \<times> 'e event list"
where
  "compare_faces encode distance post known_face_encodings known_face_names image_field =
     (case image_field of
        None \<Rightarrow> (error_response ''No image uploaded'' 400, [])
      | Some image_data \<Rightarrow>
          (case process_image encode distance post known_face_encodings known_face_names image_data of
             (Inr resp, evs) \<Rightarrow> (resp, evs)
           | (Inl (FaceRecognitionError m), evs) \<Rightarrow>
               (error_response (''Face recognition error: '' @ m) 400, evs)
           | (Inl IndexError, evs) \<Rightarrow>
               (error_response (''Error processing the image: '' @ ''list index out of range'') 500,
                evs)
           | (Inl (OtherException m), evs) \<Rightarrow>
               (error_response (''Error processing the image: '' @ m) 500, evs)))"

subsection \<open>Reading a trace, and the first matching gallery entry\<close>

text \<open>The arguments of the notifier's calls, and the embeddings evaluated, in order.\<close>

fun notifications :: "'e event list \<Rightarrow> dict list" where
  "notifications [] = []"
| "notifications (Notify d # evs) = d # notifications evs"
| "notifications (Compare q # evs) = notifications evs"
| "notifications (Net ev # evs) = notifications evs"

fun compared :: "'e event list \<Rightarrow> 'e list" where
  "compared [] = []"
| "compared (Compare q # evs) = q # compared evs"
| "compared (Notify d # evs) = compared evs"
| "compared (Net ev # evs) = compared evs"

text \<open>
  Entry \<open>i\<close> of the gallery is within tolerance of the query \<open>q\<close> and no earlier
  entry is.
\<close>

definition first_match :: "('e \<Rightarrow> 'e \<Rightarrow> real) \<Rightarrow> 'e list \<Rightarrow> 'e \<Rightarrow> nat \<Rightarrow> bool" where
  "first_match distance known q i \<longleftrightarrow>
     i < length known \<and> distance (known ! i) q \<le> TOLERANCE \<and>
     (\<forall>j<i. \<not> distance (known ! j) q \<le> TOLERANCE)"

subsection \<open>What the loader keeps of one file\<close>

text \<open>
  One pass of the loader's loop, as a value: the entry appended for \<open>filename\<close>, or
  \<open>None\<close> when the file is passed over.
\<close>

definition kept :: "(string \<Rightarrow> string + 'e list) \<Rightarrow> string \<Rightarrow> ('e \<times> string) option" where
  "kept load filename =
     (if endswith_any (lower filename) [''.jpg'', ''.jpeg'', ''.png'']
      then (case load (FACE_FOLDER @ filename) of
              Inl e \<Rightarrow> None
            | Inr [] \<Rightarrow> None
            | Inr (face_encoding # _) \<Rightarrow> Some (face_encoding, fst (splitext filename)))
      else None)"

text \<open>
  A decoder for a small folder, for the instances below: two faces in \<open>alice.JPG\<close>, the
  first of them again in \<open>alice.png\<close>, a file that does not decode, a file without a
  face, and another face in every other file.
\<close>

definition example_load :: "string \<Rightarrow> string + nat list" where
  "example_load path =
     (if path = ''Face/alice.JPG'' then Inr [1, 2]
      else if path = ''Face/alice.png'' then Inr [1]
      else if path = ''Face/broken.png'' then Inl ''cannot identify image file''
      else if path = ''Face/empty.jpeg'' then Inr []
      else Inr [3])"

subsection \<open>Inputs for the instances below\<close>

text \<open>
  The binary64 values nearest to the decimals 0.3, 0.1, 0.35, 0.4, 0.20035, 0.49875 and
  -0.2 (what the Python literal of each denotes).
\<close>

definition double_0_3 :: real where "double_0_3 = 5404319552844595 / 2 ^ 54"

definition double_0_1 :: real where "double_0_1 = 3602879701896397 / 2 ^ 55"

definition double_0_35 :: real where "double_0_35 = 3152519739159347 / 2 ^ 53"

definition double_0_4 :: real where "double_0_4 = 3602879701896397 / 2 ^ 53"

definition double_0_20035 :: real where "double_0_20035 = 7218369482749431 / 2 ^ 55"

definition double_0_49875 :: real where "double_0_49875 = 8984681256604139 / 2 ^ 54"

definition double_minus_0_2 :: real where "double_minus_0_2 = - 3602879701896397 / 2 ^ 54"

text \<open>
  The distances of the specification's scenario: the query is at 0.3 from the gallery
  entry 1 and at 0.1 from every other entry.
\<close>

definition scenario_distance :: "nat \<Rightarrow> nat \<Rightarrow> real" where
  "scenario_distance k q = (if k = 1 then double_0_3 else double_0_1)"

text \<open>An upload in which one face is found, and a gallery of two entries.\<close>

definition one_face :: "string \<Rightarrow> string + nat list" where
  "one_face image_data = Inr [0]"

text \<open>
  Downstream endpoints: one that answers every attempt with 200 and a JSON object, one
  that answers 200 with a body that is not JSON, one that answers 200 with the body
  \<open>null\<close>, one that answers 200 with a body nested too deeply to decode, one that
  answers 503, and one that cannot be reached.
\<close>

definition ok_200 :: "nat \<Rightarrow> http_result" where
  "ok_200 attempt = Response 200 (Parsed (JObj [(''ok'', JBool True)]))"

definition undecodable_200 :: "nat \<Rightarrow> http_result" where
  "undecodable_200 attempt =
     Response 200 (JSONDecodeError ''Expecting value: line 1 column 1 (char 0)'')"

definition null_200 :: "nat \<Rightarrow> http_result" where
  "null_200 attempt = Response 200 (Parsed JNull)"

definition deeply_nested_200 :: "nat \<Rightarrow> http_result" where
  "deeply_nested_200 attempt =
     Response 200 (JsonRaises
       ''maximum recursion depth exceeded while decoding a JSON array from a unicode string'')"

definition unavailable_503 :: "nat \<Rightarrow> http_result" where
  "unavailable_503 attempt = Response 503 (JSONDecodeError ''Expecting value: line 1 column 1 (char 0)'')"

definition unreachable :: "nat \<Rightarrow> http_result" where
  "unreachable attempt = RequestException ''Connection refused''"

definition alice_payload :: dict where
  "alice_payload = [(''name'', JStr ''alice''), (''confidence'', JStr ''70.00%'')]"

section \<open>Properties\<close>

subsection \<open>The notifier\<close>

lemma send_loop_parsed:
  "attempt < retries \<Longrightarrow> post attempt = Response 200 (Parsed v) \<Longrightarrow>
   send_loop post data retries attempt = (Inr v, [Post data])"
  by (subst send_loop.simps) simp

lemma send_loop_non_200:
  "attempt < retries \<Longrightarrow> post attempt = Response status_code jr \<Longrightarrow> status_code \<noteq> 200 \<Longrightarrow>
   send_loop post data retries attempt =
     (Inr (JObj [(''status'', JStr ''partial_success''),
                 (''message'', JStr ''Data sent but Node.js returned non-200 status''),
                 (''node_status'', JInt (int status_code))]),
      [Post data])"
  by (subst send_loop.simps) simp

lemma send_loop_escapes:
  "attempt < retries \<Longrightarrow> escapes (post attempt) \<Longrightarrow>
   \<exists>e. send_loop post data retries attempt = (Inl (OtherException e), [Post data])"
  by (subst send_loop.simps, cases "post attempt" rule: escapes.cases) auto

lemma send_loop_caught:
  "attempt < retries \<Longrightarrow> caught (post attempt) \<Longrightarrow>
   send_loop post data retries attempt =
     (fst (send_loop post data retries (Suc attempt)),
      Post data # (if Suc attempt < retries then [Sleep RETRY_DELAY] else []) @
        snd (send_loop post data retries (Suc attempt)))"
  by (subst send_loop.simps, cases "post attempt" rule: caught.cases)
     (auto simp: Let_def split: prod.splits)

lemma send_loop_done:
  "\<not> attempt < retries \<Longrightarrow> send_loop post data retries attempt = (Inr JNull, [])"
  by (subst send_loop.simps) simp

lemma caught_cases:
  "caught r \<or> escapes r \<or> (\<exists>v. r = Response 200 (Parsed v)) \<or>
   (\<exists>s jr. r = Response s jr \<and> s \<noteq> 200)"
  by (cases r rule: caught.cases) auto

lemma send_loop_all_caught:
  "(\<forall>i. attempt \<le> i \<and> i < retries \<longrightarrow> caught (post i)) \<Longrightarrow>
   send_loop post data retries attempt = (Inr JNull, retry_trace data (retries - attempt))"
proof (induction "retries - attempt" arbitrary: attempt)
  case 0
  then show ?case by (simp add: send_loop_done)
next
  case (Suc n)
  then have lt: "attempt < retries" and c: "caught (post attempt)" by auto
  from Suc have n: "n = retries - Suc attempt" by simp
  have rest: "send_loop post data retries (Suc attempt)
                = (Inr JNull, retry_trace data (retries - Suc attempt))"
    using Suc.hyps(1) [OF n] Suc.prems by simp
  show ?case
  proof (cases "Suc attempt < retries")
    case True
    then obtain k where k: "retries - attempt = Suc (Suc k)"
      by (metis Suc_diff_Suc Suc_lessD)
    then have "retries - Suc attempt = Suc k" by simp
    with True lt c rest k show ?thesis by (simp add: send_loop_caught)
  next
    case False
    with lt have "retries - attempt = Suc 0" "retries - Suc attempt = 0" by auto
    with False lt c rest show ?thesis by (simp add: send_loop_caught)
  qed
qed

lemma send_loop_null_iff:
  "fst (send_loop post data retries attempt) = Inr JNull \<longleftrightarrow>
     (\<forall>i. attempt \<le> i \<and> i < retries \<longrightarrow> caught (post i)) \<or>
     (\<exists>k. attempt \<le> k \<and> k < retries \<and> (\<forall>i. attempt \<le> i \<and> i < k \<longrightarrow> caught (post i)) \<and>
          post k = Response 200 (Parsed JNull))"
proof (induction "retries - attempt" arbitrary: attempt)
  case 0
  then show ?case by (auto simp add: send_loop_done)
next
  case (Suc n)
  then have lt: "attempt < retries" by auto
  from Suc have n: "n = retries - Suc attempt" by simp
  note IH = Suc.hyps(1) [OF n]
  consider (c) "caught (post attempt)" | (e) "escapes (post attempt)"
    | (p) v where "post attempt = Response 200 (Parsed v)"
    | (o) s jr where "post attempt = Response s jr" "s \<noteq> 200"
    using caught_cases [of "post attempt"] by blast
  then show ?case
  proof cases
    case c
    have "(\<forall>i. attempt \<le> i \<and> i < retries \<longrightarrow> caught (post i)) \<longleftrightarrow>
          (\<forall>i. Suc attempt \<le> i \<and> i < retries \<longrightarrow> caught (post i))"
      using c by (metis Suc_leI le_neq_implies_less Suc_leD)
    moreover have "(\<exists>k. attempt \<le> k \<and> k < retries \<and>
             (\<forall>i. attempt \<le> i \<and> i < k \<longrightarrow> caught (post i)) \<and>
             post k = Response 200 (Parsed JNull)) \<longleftrightarrow>
          (\<exists>k. Suc attempt \<le> k \<and> k < retries \<and>
             (\<forall>i. Suc attempt \<le> i \<and> i < k \<longrightarrow> caught (post i)) \<and>
             post k = Response 200 (Parsed JNull))"
      (is "?L \<longleftrightarrow> ?R")
    proof
      assume ?L
      then obtain k where k: "attempt \<le> k" "k < retries"
        "\<forall>i. attempt \<le> i \<and> i < k \<longrightarrow> caught (post i)" "post k = Response 200 (Parsed JNull)"
        by blast
      with c have "k \<noteq> attempt" by auto
      with k have "Suc attempt \<le> k" by simp
      with k show ?R by (metis Suc_leD)
    next
      assume ?R
      then obtain k where k: "Suc attempt \<le> k" "k < retries"
        "\<forall>i. Suc attempt \<le> i \<and> i < k \<longrightarrow> caught (post i)" "post k = Response 200 (Parsed JNull)"
        by blast
      have "\<forall>i. attempt \<le> i \<and> i < k \<longrightarrow> caught (post i)"
        using k(3) c by (metis Suc_leI le_neq_implies_less)
      with k show ?L by (metis Suc_leD)
    qed
    ultimately show ?thesis
      using IH lt c by (simp add: send_loop_caught)
  next
    case e
    then have nc: "\<not> caught (post attempt)" by (cases "post attempt" rule: caught.cases) auto
    from e have np: "post attempt \<noteq> Response 200 (Parsed JNull)" by auto
    have l: "fst (send_loop post data retries attempt) \<noteq> Inr JNull"
      using send_loop_escapes [of attempt retries post data] lt e by auto
    have "\<not> (\<forall>i. attempt \<le> i \<and> i < retries \<longrightarrow> caught (post i))"
      using nc lt by auto
    moreover have "\<not> (\<exists>k. attempt \<le> k \<and> k < retries \<and>
             (\<forall>i. attempt \<le> i \<and> i < k \<longrightarrow> caught (post i)) \<and>
             post k = Response 200 (Parsed JNull))"
    proof
      assume "\<exists>k. attempt \<le> k \<and> k < retries \<and>
             (\<forall>i. attempt \<le> i \<and> i < k \<longrightarrow> caught (post i)) \<and>
             post k = Response 200 (Parsed JNull)"
      then obtain k where k: "attempt \<le> k"
        "\<forall>i. attempt \<le> i \<and> i < k \<longrightarrow> caught (post i)" "post k = Response 200 (Parsed JNull)"
        by blast
      with np have "attempt < k" by (metis le_neq_implies_less)
      with k(2) nc show False by blast
    qed
    ultimately show ?thesis using l by blast
  next
    case p
    then have nc: "\<not> caught (post attempt)" by simp
    have l: "fst (send_loop post data retries attempt) = Inr v"
      using send_loop_parsed [of attempt retries post v data] lt p by simp
    have "\<not> (\<forall>i. attempt \<le> i \<and> i < retries \<longrightarrow> caught (post i))"
      using nc lt by auto
    moreover have "(\<exists>k. attempt \<le> k \<and> k < retries \<and>
             (\<forall>i. attempt \<le> i \<and> i < k \<longrightarrow> caught (post i)) \<and>
             post k = Response 200 (Parsed JNull)) \<longleftrightarrow> v = JNull"
    proof
      assume "\<exists>k. attempt \<le> k \<and> k < retries \<and>
             (\<forall>i. attempt \<le> i \<and> i < k \<longrightarrow> caught (post i)) \<and>
             post k = Response 200 (Parsed JNull)"
      then obtain k where k: "attempt \<le> k"
        "\<forall>i. attempt \<le> i \<and> i < k \<longrightarrow> caught (post i)" "post k = Response 200 (Parsed JNull)"
        by blast
      show "v = JNull"
      proof (cases "k = attempt")
        case True
        with k p show ?thesis by simp
      next
        case False
        with k have "attempt < k" by simp
        with k(2) nc show ?thesis by blast
      qed
    next
      assume "v = JNull"
      with p lt show "\<exists>k. attempt \<le> k \<and> k < retries \<and>
             (\<forall>i. attempt \<le> i \<and> i < k \<longrightarrow> caught (post i)) \<and>
             post k = Response 200 (Parsed JNull)"
        by (intro exI [of _ attempt]) auto
    qed
    ultimately show ?thesis using l by auto
  next
    case o
    then have nc: "\<not> caught (post attempt)" by (cases jr) auto
    from o have np: "post attempt \<noteq> Response 200 (Parsed JNull)" by auto
    have l: "fst (send_loop post data retries attempt) \<noteq> Inr JNull"
      using send_loop_non_200 [of attempt retries post s jr data] lt o by simp
    have "\<not> (\<forall>i. attempt \<le> i \<and> i < retries \<longrightarrow> caught (post i))"
      using nc lt by auto
    moreover have "\<not> (\<exists>k. attempt \<le> k \<and> k < retries \<and>
             (\<forall>i. attempt \<le> i \<and> i < k \<longrightarrow> caught (post i)) \<and>
             post k = Response 200 (Parsed JNull))"
    proof
      assume "\<exists>k. attempt \<le> k \<and> k < retries \<and>
             (\<forall>i. attempt \<le> i \<and> i < k \<longrightarrow> caught (post i)) \<and>
             post k = Response 200 (Parsed JNull)"
      then obtain k where k: "attempt \<le> k"
        "\<forall>i. attempt \<le> i \<and> i < k \<longrightarrow> caught (post i)" "post k = Response 200 (Parsed JNull)"
        by blast
      with np have "attempt < k" by (metis le_neq_implies_less)
      with k(2) nc show False by blast
    qed
    ultimately show ?thesis using l by blast
  qed
qed

lemma send_loop_returns:
  "(\<forall>i. attempt \<le> i \<and> i < retries \<longrightarrow> \<not> escapes (post i)) \<Longrightarrow>
   \<exists>v. fst (send_loop post data retries attempt) = Inr v"
proof (induction "retries - attempt" arbitrary: attempt)
  case 0
  then show ?case by (simp add: send_loop_done)
next
  case (Suc n)
  then have lt: "attempt < retries" by auto
  from Suc have n: "n = retries - Suc attempt" by simp
  from Suc.prems lt have ne: "\<not> escapes (post attempt)" by simp
  consider (c) "caught (post attempt)"
    | (p) v where "post attempt = Response 200 (Parsed v)"
    | (o) s jr where "post attempt = Response s jr" "s \<noteq> 200"
    using caught_cases [of "post attempt"] ne by blast
  then show ?case
  proof cases
    case c
    have "\<exists>v. fst (send_loop post data retries (Suc attempt)) = Inr v"
      using Suc.hyps(1) [OF n] Suc.prems by simp
    with lt c show ?thesis by (simp add: send_loop_caught)
  next
    case p
    with lt show ?thesis by (simp add: send_loop_parsed)
  next
    case o
    with lt show ?thesis by (simp add: send_loop_non_200)
  qed
qed

lemma retry_trace_posts: "length (filter (\<lambda>ev. ev = Post data) (retry_trace data n)) = n"
  by (induction data n rule: retry_trace.induct) auto

lemma retry_trace_sleeps:
  "length (filter (\<lambda>ev. ev = Sleep RETRY_DELAY) (retry_trace data n)) = n - 1"
  by (induction data n rule: retry_trace.induct) auto

lemma caught_iff_request_exception:
  "r \<noteq> Response 200 (Parsed JNull) \<Longrightarrow> \<forall>e. r \<noteq> Response 200 (JSONDecodeError e) \<Longrightarrow>
   caught r \<longleftrightarrow> (\<exists>e. r = RequestException e)"
  by (cases r rule: caught.cases) auto

text \<open>
  Claim C2, as amended. When the first attempt yields HTTP 200 with a body that parses
  as JSON, the notifier makes that one call and returns the parsed value. When the first
  attempt yields any other HTTP status it makes that one call, does not retry, and
  returns the partial-success object carrying the status. When every attempt ends in a
  network-level error (a \<open>RequestException\<close> of the call) it makes \<open>retries\<close> calls,
  sleeping the retry delay between consecutive ones and not after the last, and returns
  \<open>None\<close>. And provided no attempt answers 200 with the body \<open>null\<close> or with a
  body that is not JSON, it returns \<open>None\<close> only when every attempt ends in a
  network-level error.
\<close>

theorem notifier_outcomes:
  "(0 < retries \<and> post 0 = Response 200 (Parsed json_body) \<longrightarrow>
      send_to_nodejs post data retries = (Inr json_body, [Post data])) \<and>
   (0 < retries \<and> post 0 = Response status_code jr \<and> status_code \<noteq> 200 \<longrightarrow>
      send_to_nodejs post data retries =
        (Inr (JObj [(''status'', JStr ''partial_success''),
                    (''message'', JStr ''Data sent but Node.js returned non-200 status''),
                    (''node_status'', JInt (int status_code))]),
         [Post data])) \<and>
   ((\<forall>i<retries. \<exists>e. post i = RequestException e) \<longrightarrow>
      send_to_nodejs post data retries = (Inr JNull, retry_trace data retries) \<and>
      length (filter (\<lambda>ev. ev = Post data) (snd (send_to_nodejs post data retries))) = retries \<and>
      length (filter (\<lambda>ev. ev = Sleep RETRY_DELAY) (snd (send_to_nodejs post data retries)))
        = retries - 1) \<and>
   ((\<forall>i<retries. post i \<noteq> Response 200 (Parsed JNull) \<and>
        (\<forall>e. post i \<noteq> Response 200 (JSONDecodeError e))) \<longrightarrow>
      (fst (send_to_nodejs post data retries) = Inr JNull \<longleftrightarrow>
         (\<forall>i<retries. \<exists>e. post i = RequestException e)))"
proof (intro conjI impI)
  assume "0 < retries \<and> post 0 = Response 200 (Parsed json_body)"
  then show "send_to_nodejs post data retries = (Inr json_body, [Post data])"
    by (simp add: send_to_nodejs_def send_loop_parsed)
next
  assume "0 < retries \<and> post 0 = Response status_code jr \<and> status_code \<noteq> 200"
  then show "send_to_nodejs post data retries =
        (Inr (JObj [(''status'', JStr ''partial_success''),
                    (''message'', JStr ''Data sent but Node.js returned non-200 status''),
                    (''node_status'', JInt (int status_code))]),
         [Post data])"
    using send_loop_non_200 [of 0 retries post status_code jr data]
    by (simp add: send_to_nodejs_def)
next
  assume a: "\<forall>i<retries. \<exists>e. post i = RequestException e"
  then have "\<forall>i. 0 \<le> i \<and> i < retries \<longrightarrow> caught (post i)" by auto
  from send_loop_all_caught [OF this, of data]
  have s: "send_to_nodejs post data retries = (Inr JNull, retry_trace data retries)"
    by (simp add: send_to_nodejs_def)
  then show "send_to_nodejs post data retries = (Inr JNull, retry_trace data retries)" .
  from s show "length (filter (\<lambda>ev. ev = Post data) (snd (send_to_nodejs post data retries)))
      = retries"
    by (simp add: retry_trace_posts)
  from s show "length (filter (\<lambda>ev. ev = Sleep RETRY_DELAY)
      (snd (send_to_nodejs post data retries))) = retries - 1"
    by (simp add: retry_trace_sleeps)
next
  assume h: "\<forall>i<retries. post i \<noteq> Response 200 (Parsed JNull) \<and>
        (\<forall>e. post i \<noteq> Response 200 (JSONDecodeError e))"
  then have c: "caught (post i) \<longleftrightarrow> (\<exists>e. post i = RequestException e)" if "i < retries" for i
    using that caught_iff_request_exception [of "post i"] by blast
  define A where "A \<longleftrightarrow> (\<forall>i. 0 \<le> i \<and> i < retries \<longrightarrow> caught (post i))"
  define B where "B \<longleftrightarrow> (\<exists>k. 0 \<le> k \<and> k < retries \<and>
          (\<forall>i. 0 \<le> i \<and> i < k \<longrightarrow> caught (post i)) \<and> post k = Response 200 (Parsed JNull))"
  define C where "C \<longleftrightarrow> (\<forall>i<retries. \<exists>e. post i = RequestException e)"
  have nonull: "\<not> B"
    unfolding B_def using h by blast
  have allc: "A \<longleftrightarrow> C"
    unfolding A_def C_def using c by auto
  have "fst (send_loop post data retries 0) = Inr JNull \<longleftrightarrow> A \<or> B"
    unfolding A_def B_def by (rule send_loop_null_iff)
  with nonull allc have "fst (send_loop post data retries 0) = Inr JNull \<longleftrightarrow> C"
    by simp
  then show "fst (send_to_nodejs post data retries) = Inr JNull \<longleftrightarrow>
         (\<forall>i<retries. \<exists>e. post i = RequestException e)"
    unfolding C_def by (simp only: send_to_nodejs_def)
qed

theorem notifier_outcomes_witness:
  "send_to_nodejs ok_200 alice_payload 3
     = (Inr (JObj [(''ok'', JBool True)]), [Post alice_payload]) \<and>
   send_to_nodejs unavailable_503 alice_payload 3
     = (Inr (JObj [(''status'', JStr ''partial_success''),
                   (''message'', JStr ''Data sent but Node.js returned non-200 status''),
                   (''node_status'', JInt 503)]),
        [Post alice_payload]) \<and>
   send_to_nodejs unreachable alice_payload 3
     = (Inr JNull, [Post alice_payload, Sleep 1, Post alice_payload, Sleep 1, Post alice_payload]) \<and>
   length (filter (\<lambda>ev. ev = Post alice_payload) (snd (send_to_nodejs unreachable alice_payload 3)))
     = 3 \<and>
   fst (send_to_nodejs ok_200 alice_payload 3) \<noteq> Inr JNull"
  using notifier_outcomes [of 3 ok_200 "JObj [(''ok'', JBool True)]" alice_payload 200
          "Parsed JNull"]
        notifier_outcomes [of 3 unavailable_503 JNull alice_payload 503
          "JSONDecodeError ''Expecting value: line 1 column 1 (char 0)''"]
        notifier_outcomes [of 3 unreachable JNull alice_payload 0 "Parsed JNull"]
  by (simp add: eval_nat_numeral RETRY_DELAY_def ok_200_def unavailable_503_def unreachable_def)

text \<open>
  The claim as first stated fails on two inputs. A first attempt that yields HTTP 200
  with a body that is not JSON is retried: three calls are made and \<open>None\<close> is
  returned. A first attempt that yields HTTP 200 with the body \<open>null\<close> returns
  \<open>None\<close> after one call, though no attempt ended in a network-level error.
\<close>

theorem notifier_outcomes_counterexample:
  "undecodable_200 0 = Response 200 (JSONDecodeError ''Expecting value: line 1 column 1 (char 0)'') \<and>
   send_to_nodejs undecodable_200 alice_payload 3
     = (Inr JNull, [Post alice_payload, Sleep 1, Post alice_payload, Sleep 1, Post alice_payload]) \<and>
   null_200 0 = Response 200 (Parsed JNull) \<and>
   send_to_nodejs null_200 alice_payload 3 = (Inr JNull, [Post alice_payload])"
proof -
  have "\<forall>i. 0 \<le> i \<and> i < 3 \<longrightarrow> caught (undecodable_200 i)"
    by (simp add: undecodable_200_def)
  from send_loop_all_caught [OF this, of alice_payload]
  have "send_to_nodejs undecodable_200 alice_payload 3
     = (Inr JNull, [Post alice_payload, Sleep 1, Post alice_payload, Sleep 1, Post alice_payload])"
    by (simp add: send_to_nodejs_def eval_nat_numeral RETRY_DELAY_def)
  moreover have "send_to_nodejs null_200 alice_payload 3 = (Inr JNull, [Post alice_payload])"
    using send_loop_parsed [of 0 3 null_200 JNull alice_payload]
    by (simp add: send_to_nodejs_def null_200_def)
  ultimately show ?thesis by (simp add: undecodable_200_def null_200_def)
qed

subsection \<open>The match loop\<close>

lemma index_less_iff: "index xs x < length xs \<longleftrightarrow> x \<in> set xs"
  by (induction xs) auto

lemma index_first:
  "i < length xs \<Longrightarrow> xs ! i = x \<Longrightarrow> (\<forall>j<i. xs ! j \<noteq> x) \<Longrightarrow> index xs x = i"
proof (induction xs arbitrary: i)
  case Nil
  then show ?case by simp
next
  case (Cons y ys)
  show ?case
  proof (cases i)
    case 0
    with Cons.prems show ?thesis by simp
  next
    case (Suc k)
    from Cons.prems Suc have "(y # ys) ! 0 \<noteq> x" by blast
    then have "y \<noteq> x" by simp
    have "ys ! j \<noteq> x" if "j < k" for j
    proof -
      from that Suc have "Suc j < i" by simp
      with Cons.prems have "(y # ys) ! Suc j \<noteq> x" by blast
      then show ?thesis by simp
    qed
    moreover from Cons.prems Suc have "k < length ys" "ys ! k = x" by auto
    ultimately have "index ys x = k" using Cons.IH [of k] by blast
    with \<open>y \<noteq> x\<close> Suc show ?thesis by simp
  qed
qed

lemma first_match_index:
  "first_match distance known q i \<Longrightarrow>
   index (lib_compare_faces distance known q TOLERANCE) True = i"
  unfolding first_match_def lib_compare_faces_def face_distance_def
  by (intro index_first) auto

lemma first_match_in:
  "first_match distance known q i \<Longrightarrow> True \<in> set (lib_compare_faces distance known q TOLERANCE)"
  unfolding first_match_def lib_compare_faces_def face_distance_def
  by (auto simp: image_iff intro!: bexI [of _ "known ! i"])

lemma no_match_notin:
  "(\<forall>k\<in>set known. \<not> distance k q \<le> TOLERANCE) \<Longrightarrow>
   True \<notin> set (lib_compare_faces distance known q TOLERANCE)"
  unfolding lib_compare_faces_def face_distance_def by auto

lemma match_loop_hit:
  "first_match distance known q i \<Longrightarrow>
   on_match post names (lib_compare_faces distance known q TOLERANCE)
     (face_distance distance known q) = (r, evs) \<Longrightarrow>
   match_loop distance post known names (q # rest) = (r, Compare q # evs)"
  using first_match_in [of distance known q i]
  by (simp add: Let_def)

lemma match_loop_skip:
  "(\<forall>k\<in>set known. \<not> distance k q \<le> TOLERANCE) \<Longrightarrow>
   match_loop distance post known names rest = (r, evs) \<Longrightarrow>
   match_loop distance post known names (q # rest) = (r, Compare q # evs)"
  using no_match_notin [of known distance q]
  by (simp add: Let_def)

lemma match_loop_none:
  "(\<forall>q\<in>set qs. \<forall>k\<in>set known. \<not> distance k q \<le> TOLERANCE) \<Longrightarrow>
   match_loop distance post known names qs = (Inr not_found_response, map Compare qs)"
proof (induction qs)
  case Nil
  then show ?case by simp
next
  case (Cons q qs)
  then show ?case
    using match_loop_skip [of known distance q post names qs "Inr not_found_response" "map Compare qs"]
    by simp
qed

lemma match_loop_first:
  "(\<forall>p\<in>set pre. \<forall>k\<in>set known. \<not> distance k p \<le> TOLERANCE) \<Longrightarrow>
   first_match distance known q i \<Longrightarrow>
   on_match post names (lib_compare_faces distance known q TOLERANCE)
     (face_distance distance known q) = (r, evs) \<Longrightarrow>
   match_loop distance post known names (pre @ q # rest) = (r, map Compare pre @ Compare q # evs)"
proof (induction pre)
  case Nil
  then show ?case using match_loop_hit [of distance known q i post names r evs rest] by simp
next
  case (Cons p pre)
  then have "match_loop distance post known names (pre @ q # rest)
               = (r, map Compare pre @ Compare q # evs)"
    by simp
  moreover from Cons.prems have "\<forall>k\<in>set known. \<not> distance k p \<le> TOLERANCE" by simp
  ultimately show ?case
    using match_loop_skip [of known distance p post names "pre @ q # rest" r
            "map Compare pre @ Compare q # evs"]
    by simp
qed

lemma on_match_high:
  assumes "index matches True = i" and "i < length names"
    and "MIN_CONFIDENCE \<le> fmul (fsub 1 (dists ! i)) 100"
    and "send_to_nodejs post
           [(''name'', JStr (names ! i)),
            (''confidence'', JStr (format_2f (fmul (fsub 1 (dists ! i)) 100) @ ''%''))] MAX_RETRIES
         = (Inr nr, nevs)"
  shows "on_match post names matches dists =
     (Inr \<lparr>body =
             [(''status'', JStr ''success''),
              (''message'', JStr (''Match Found! Name: '' @ names ! i)),
              (''name'', JStr (names ! i)),
              (''confidence'', JStr (format_2f (fmul (fsub 1 (dists ! i)) 100) @ ''%'')),
              (if truthy nr then (''node_response'', nr)
               else (''node_status'', JStr ''Data sent but no response from Node.js''))],
           http_status = 200\<rparr>,
      Notify [(''name'', JStr (names ! i)),
              (''confidence'', JStr (format_2f (fmul (fsub 1 (dists ! i)) 100) @ ''%''))] # map Net nevs)"
  using assms by (simp add: on_match_def Let_def)

lemma on_match_low:
  assumes "index matches True = i" and "i < length names"
    and "fmul (fsub 1 (dists ! i)) 100 < MIN_CONFIDENCE"
  shows "on_match post names matches dists =
     (Inr \<lparr>body =
             [(''status'', JStr ''success''),
              (''message'', JStr (''Match found but confidence too low ('' @
                 format_2f (fmul (fsub 1 (dists ! i)) 100) @ ''%)'')),
              (''name'', JStr (names ! i)),
              (''confidence'', JStr (format_2f (fmul (fsub 1 (dists ! i)) 100) @ ''%'')),
              (''node_status'', JStr ''Data not sent due to low confidence'')],
           http_status = 200\<rparr>,
      [])"
  using assms by (simp add: on_match_def Let_def)

lemma on_match_out_of_range:
  "\<not> index matches True < length names \<Longrightarrow>
   on_match post names matches dists = (Inl IndexError, [])"
  by (simp add: on_match_def Let_def)

lemma compare_faces_valid:
  assumes "image_data \<noteq> []" and "encode image_data = Inr qs" and "qs \<noteq> []"
    and "match_loop distance post known names qs = (Inr resp, evs)"
  shows "compare_faces encode distance post known names (Some image_data) = (resp, evs)"
  using assms by (simp add: compare_faces_def process_image_def)

lemma face_distance_nth:
  "i < length known \<Longrightarrow> face_distance distance known q ! i = distance (known ! i) q"
  by (simp add: face_distance_def)

lemma matched_high:
  assumes "image_data \<noteq> []" and "encode image_data = Inr (pre @ q # rest)"
    and "\<forall>p\<in>set pre. \<forall>k\<in>set known. \<not> distance k p \<le> TOLERANCE"
    and "first_match distance known q i" and "i < length names"
    and "MIN_CONFIDENCE \<le> fmul (fsub 1 (distance (known ! i) q)) 100"
    and "send_to_nodejs post
           [(''name'', JStr (names ! i)),
            (''confidence'', JStr (format_2f (fmul (fsub 1 (distance (known ! i) q)) 100) @ ''%''))]
           MAX_RETRIES = (Inr nr, nevs)"
  shows "compare_faces encode distance post known names (Some image_data) =
     (\<lparr>body =
         [(''status'', JStr ''success''),
          (''message'', JStr (''Match Found! Name: '' @ names ! i)),
          (''name'', JStr (names ! i)),
          (''confidence'', JStr (format_2f (fmul (fsub 1 (distance (known ! i) q)) 100) @ ''%'')),
          (if truthy nr then (''node_response'', nr)
           else (''node_status'', JStr ''Data sent but no response from Node.js''))],
       http_status = 200\<rparr>,
      map Compare pre @ Compare q #
        Notify [(''name'', JStr (names ! i)),
                (''confidence'', JStr (format_2f (fmul (fsub 1 (distance (known ! i) q)) 100) @ ''%''))] #
        map Net nevs)"
proof -
  from assms(4) have i: "i < length known" by (simp add: first_match_def)
  have d: "face_distance distance known q ! i = distance (known ! i) q"
    using i by (rule face_distance_nth)
  have "on_match post names (lib_compare_faces distance known q TOLERANCE)
          (face_distance distance known q) =
     (Inr \<lparr>body =
         [(''status'', JStr ''success''),
          (''message'', JStr (''Match Found! Name: '' @ names ! i)),
          (''name'', JStr (names ! i)),
          (''confidence'', JStr (format_2f (fmul (fsub 1 (distance (known ! i) q)) 100) @ ''%'')),
          (if truthy nr then (''node_response'', nr)
           else (''node_status'', JStr ''Data sent but no response from Node.js''))],
       http_status = 200\<rparr>,
      Notify [(''name'', JStr (names ! i)),
              (''confidence'', JStr (format_2f (fmul (fsub 1 (distance (known ! i) q)) 100) @ ''%''))] #
        map Net nevs)"
    using on_match_high [of "lib_compare_faces distance known q TOLERANCE" i names
            "face_distance distance known q" post nr nevs]
          first_match_index [OF assms(4)] assms(5,6,7) d
    by simp
  from match_loop_first [OF assms(3,4) this]
  show ?thesis
    using compare_faces_valid [of image_data encode "pre @ q # rest" distance post known names]
          assms(1,2)
    by simp
qed

lemma matched_low:
  assumes "image_data \<noteq> []" and "encode image_data = Inr (pre @ q # rest)"
    and "\<forall>p\<in>set pre. \<forall>k\<in>set known. \<not> distance k p \<le> TOLERANCE"
    and "first_match distance known q i" and "i < length names"
    and "fmul (fsub 1 (distance (known ! i) q)) 100 < MIN_CONFIDENCE"
  shows "compare_faces encode distance post known names (Some image_data) =
     (\<lparr>body =
         [(''status'', JStr ''success''),
          (''message'', JStr (''Match found but confidence too low ('' @
             format_2f (fmul (fsub 1 (distance (known ! i) q)) 100) @ ''%)'')),
          (''name'', JStr (names ! i)),
          (''confidence'', JStr (format_2f (fmul (fsub 1 (distance (known ! i) q)) 100) @ ''%'')),
          (''node_status'', JStr ''Data not sent due to low confidence'')],
       http_status = 200\<rparr>,
      map Compare pre @ [Compare q])"
proof -
  from assms(4) have i: "i < length known" by (simp add: first_match_def)
  have d: "face_distance distance known q ! i = distance (known ! i) q"
    using i by (rule face_distance_nth)
  have "on_match post names (lib_compare_faces distance known q TOLERANCE)
          (face_distance distance known q) =
     (Inr \<lparr>body =
         [(''status'', JStr ''success''),
          (''message'', JStr (''Match found but confidence too low ('' @
             format_2f (fmul (fsub 1 (distance (known ! i) q)) 100) @ ''%)'')),
          (''name'', JStr (names ! i)),
          (''confidence'', JStr (format_2f (fmul (fsub 1 (distance (known ! i) q)) 100) @ ''%'')),
          (''node_status'', JStr ''Data not sent due to low confidence'')],
       http_status = 200\<rparr>,
      [])"
    using on_match_low [of "lib_compare_faces distance known q TOLERANCE" i names
            "face_distance distance known q" post]
          first_match_index [OF assms(4)] assms(5,6) d
    by simp
  from match_loop_first [OF assms(3,4) this]
  show ?thesis
    using compare_faces_valid [of image_data encode "pre @ q # rest" distance post known names]
          assms(1,2)
    by simp
qed

lemma notifications_map_Compare [simp]: "notifications (map Compare qs @ evs) = notifications evs"
  by (induction qs) auto

lemma notifications_map_Net [simp]: "notifications (map Net nevs) = []"
  by (induction nevs) auto

lemma compared_map_Compare [simp]: "compared (map Compare qs @ evs) = qs @ compared evs"
  by (induction qs) auto

lemma compared_map_Net [simp]: "compared (map Net nevs) = []"
  by (induction nevs) auto

lemma send_to_nodejs_returns:
  assumes "\<forall>a<retries. \<not> escapes (post a)"
  obtains v nevs where "send_to_nodejs post data retries = (Inr v, nevs)"
proof -
  from assms have "\<forall>i. 0 \<le> i \<and> i < retries \<longrightarrow> \<not> escapes (post i)" by simp
  from send_loop_returns [OF this, of data]
  obtain v where "fst (send_loop post data retries 0) = Inr v" by blast
  then have "send_to_nodejs post data retries = (Inr v, snd (send_loop post data retries 0))"
    by (simp add: send_to_nodejs_def prod_eq_iff)
  then show thesis by (rule that)
qed

lemma on_match_raise:
  assumes "index matches True = i" and "i < length names"
    and "MIN_CONFIDENCE \<le> fmul (fsub 1 (dists ! i)) 100"
    and "send_to_nodejs post
           [(''name'', JStr (names ! i)),
            (''confidence'', JStr (format_2f (fmul (fsub 1 (dists ! i)) 100) @ ''%''))] MAX_RETRIES
         = (Inl e, nevs)"
  shows "on_match post names matches dists =
     (Inl e,
      Notify [(''name'', JStr (names ! i)),
              (''confidence'', JStr (format_2f (fmul (fsub 1 (dists ! i)) 100) @ ''%''))] #
        map Net nevs)"
  using assms by (simp add: on_match_def Let_def)

lemma compare_faces_raises:
  assumes "image_data \<noteq> []" and "encode image_data = Inr qs" and "qs \<noteq> []"
    and "match_loop distance post known names qs = (Inl (OtherException m), evs)"
  shows "compare_faces encode distance post known names (Some image_data) =
     (\<lparr>body = [(''status'', JStr ''error''),
               (''message'', JStr (''Error processing the image: '' @ m))],
       http_status = 500\<rparr>, evs)"
  using assms by (simp add: compare_faces_def process_image_def error_response_def)

lemma compare_faces_trace:
  assumes "image_data \<noteq> []" and "encode image_data = Inr qs" and "qs \<noteq> []"
  shows "snd (compare_faces encode distance post known names (Some image_data)) =
         snd (match_loop distance post known names qs)"
  using assms
  by (simp add: compare_faces_def process_image_def split: prod.splits sum.splits exn.splits)

lemma matched_raise:
  assumes "image_data \<noteq> []" and "encode image_data = Inr (pre @ q # rest)"
    and "\<forall>p\<in>set pre. \<forall>k\<in>set known. \<not> distance k p \<le> TOLERANCE"
    and "first_match distance known q i" and "i < length names"
    and "MIN_CONFIDENCE \<le> fmul (fsub 1 (distance (known ! i) q)) 100"
    and "send_to_nodejs post
           [(''name'', JStr (names ! i)),
            (''confidence'', JStr (format_2f (fmul (fsub 1 (distance (known ! i) q)) 100) @ ''%''))]
           MAX_RETRIES = (Inl (OtherException m), nevs)"
  shows "compare_faces encode distance post known names (Some image_data) =
     (\<lparr>body = [(''status'', JStr ''error''),
               (''message'', JStr (''Error processing the image: '' @ m))],
       http_status = 500\<rparr>,
      map Compare pre @ Compare q #
        Notify [(''name'', JStr (names ! i)),
                (''confidence'', JStr (format_2f (fmul (fsub 1 (distance (known ! i) q)) 100) @ ''%''))] #
        map Net nevs)"
proof -
  from assms(4) have i: "i < length known" by (simp add: first_match_def)
  have d: "face_distance distance known q ! i = distance (known ! i) q"
    using i by (rule face_distance_nth)
  have "on_match post names (lib_compare_faces distance known q TOLERANCE)
          (face_distance distance known q) =
     (Inl (OtherException m),
      Notify [(''name'', JStr (names ! i)),
              (''confidence'', JStr (format_2f (fmul (fsub 1 (distance (known ! i) q)) 100) @ ''%''))] #
        map Net nevs)"
    using on_match_raise [of "lib_compare_faces distance known q TOLERANCE" i names
            "face_distance distance known q" post "OtherException m" nevs]
          first_match_index [OF assms(4)] assms(5,6,7) d
    by simp
  from match_loop_first [OF assms(3,4) this]
  show ?thesis
    using compare_faces_raises [of image_data encode "pre @ q # rest" distance post known names]
          assms(1,2)
    by simp
qed

lemma matched_high_trace:
  assumes "image_data \<noteq> []" and "encode image_data = Inr (pre @ (q :: 'e) # rest)"
    and "\<forall>p\<in>set pre. \<forall>k\<in>set known. \<not> distance k p \<le> TOLERANCE"
    and "first_match distance known q i" and "i < length names"
    and "MIN_CONFIDENCE \<le> fmul (fsub 1 (distance (known ! i) q)) 100"
  shows "snd (compare_faces encode distance post known names (Some image_data)) =
      map Compare pre @ Compare q #
        Notify [(''name'', JStr (names ! i)),
                (''confidence'', JStr (format_2f (fmul (fsub 1 (distance (known ! i) q)) 100) @ ''%''))] #
        map Net (snd (send_to_nodejs post
           [(''name'', JStr (names ! i)),
            (''confidence'', JStr (format_2f (fmul (fsub 1 (distance (known ! i) q)) 100) @ ''%''))]
           MAX_RETRIES))"
proof -
  from assms(4) have i: "i < length known" by (simp add: first_match_def)
  have d: "face_distance distance known q ! i = distance (known ! i) q"
    using i by (rule face_distance_nth)
  obtain r nevs where n: "send_to_nodejs post
           [(''name'', JStr (names ! i)),
            (''confidence'', JStr (format_2f (fmul (fsub 1 (distance (known ! i) q)) 100) @ ''%''))]
           MAX_RETRIES = (r, nevs)"
    by (cases "send_to_nodejs post
           [(''name'', JStr (names ! i)),
            (''confidence'', JStr (format_2f (fmul (fsub 1 (distance (known ! i) q)) 100) @ ''%''))]
           MAX_RETRIES")
  obtain r' where "on_match post names (lib_compare_faces distance known q TOLERANCE)
          (face_distance distance known q) =
     (r',
      (Notify [(''name'', JStr (names ! i)),
              (''confidence'', JStr (format_2f (fmul (fsub 1 (distance (known ! i) q)) 100) @ ''%''))]
        :: 'e event) #
        map Net nevs)"
    using first_match_index [OF assms(4)] assms(5,6) d n
    by (cases r) (simp_all add: on_match_def Let_def)
  from match_loop_first [OF assms(3,4) this]
  show ?thesis
    using compare_faces_trace [of image_data encode "pre @ q # rest" distance post known names]
          assms(1,2) n
    by simp
qed

subsection \<open>Values of the float arithmetic and of the format\<close>

lemma binade_numeral:
  "binade (numeral k) m e =
     (if m < 1 then binade (pred_numeral k) (m * 2) (e - 1)
      else if 2 \<le> m then binade (pred_numeral k) (m / 2) (e + 1)
      else e)"
  by (simp add: numeral_eq_Suc)

lemmas float_eval =
  fmul_def fsub_def round_double_def binade_numeral pow2_def round_half_even_def Let_def

lemmas format_eval = format_2f_def round_half_even_def digit_char_def Let_def

lemma confidence_0_3: "fmul (fsub 1 double_0_3) 100 = 70"
  by (simp add: double_0_3_def float_eval)

lemma confidence_0_1: "fmul (fsub 1 double_0_1) 100 = 90"
  by (simp add: double_0_1_def float_eval)

lemma confidence_0_35: "fmul (fsub 1 double_0_35) 100 = 65"
  by (simp add: double_0_35_def float_eval)

lemma confidence_0_4: "fmul (fsub 1 double_0_4) 100 = 60"
  by (simp add: double_0_4_def float_eval)

lemma confidence_0_20035:
  "fmul (fsub 1 double_0_20035) 100 = 2813518314083451 / 35184372088832"
  by (simp add: double_0_20035_def float_eval)

lemma confidence_0_49875: "fmul (fsub 1 double_0_49875) 100 = 401 / 8"
  by (simp add: double_0_49875_def float_eval)

lemma confidence_minus_0_2: "fmul (fsub 1 double_minus_0_2) 100 = 120"
  by (simp add: double_minus_0_2_def float_eval)

lemma format_2f_70: "format_2f 70 = ''70.00''"
  by (simp add: format_eval)

lemma format_2f_65: "format_2f 65 = ''65.00''"
  by (simp add: format_eval)

lemma format_2f_60: "format_2f 60 = ''60.00''"
  by (simp add: format_eval)

lemma format_2f_120: "format_2f 120 = ''120.00''"
  by (simp add: format_eval)

lemma format_2f_79_97: "format_2f (2813518314083451 / 35184372088832) = ''79.97''"
  by (simp add: format_eval)

lemma format_2f_50_12: "format_2f (401 / 8) = ''50.12''"
  by (simp add: format_eval)

lemma doubles_within_tolerance:
  "double_0_3 \<le> TOLERANCE" "double_0_1 \<le> TOLERANCE" "double_0_35 \<le> TOLERANCE"
  "double_0_4 \<le> TOLERANCE" "double_0_20035 \<le> TOLERANCE" "double_0_49875 \<le> TOLERANCE"
  "double_minus_0_2 \<le> TOLERANCE" "double_0_1 < double_0_3"
  by (simp_all add: TOLERANCE_def double_0_3_def double_0_1_def double_0_35_def double_0_4_def
        double_0_20035_def double_0_49875_def double_minus_0_2_def)

text \<open>In exact arithmetic the confidence at 0.20035 lies below 79.965 and would print as 79.96.\<close>

lemma exact_confidence_0_20035: "format_2f ((1 - double_0_20035) * 100) = ''79.96''"
  by (simp add: double_0_20035_def format_eval)

subsection \<open>The handler on a matching face\<close>

lemma matched_returns:
  assumes "image_data \<noteq> []" and "encode image_data = Inr (pre @ q # rest)"
    and "\<forall>p\<in>set pre. \<forall>k\<in>set known. \<not> distance k p \<le> TOLERANCE"
    and "first_match distance known q i" and "i < length names"
    and "(\<forall>a<MAX_RETRIES. \<not> escapes (post a)) \<or>
         fmul (fsub 1 (distance (known ! i) q)) 100 < MIN_CONFIDENCE"
  shows "\<exists>extra.
    fst (compare_faces encode distance post known names (Some image_data)) =
      \<lparr>body =
         [(''status'', JStr ''success''),
          (''message'',
           JStr (if MIN_CONFIDENCE \<le> fmul (fsub 1 (distance (known ! i) q)) 100
                 then ''Match Found! Name: '' @ names ! i
                 else ''Match found but confidence too low ('' @
                      format_2f (fmul (fsub 1 (distance (known ! i) q)) 100) @ ''%)'')),
          (''name'', JStr (names ! i)),
          (''confidence'', JStr (format_2f (fmul (fsub 1 (distance (known ! i) q)) 100) @ ''%'')),
          extra],
       http_status = 200\<rparr>"
proof (cases "MIN_CONFIDENCE \<le> fmul (fsub 1 (distance (known ! i) q)) 100")
  case True
  with assms(6) have "\<forall>a<MAX_RETRIES. \<not> escapes (post a)" by simp
  then obtain nr nevs where n: "send_to_nodejs post
           [(''name'', JStr (names ! i)),
            (''confidence'', JStr (format_2f (fmul (fsub 1 (distance (known ! i) q)) 100) @ ''%''))]
           MAX_RETRIES = (Inr nr, nevs)"
    by (rule send_to_nodejs_returns)
  show ?thesis
    using matched_high [of image_data encode pre q rest known distance i names post nr nevs]
      assms(1-5) True n
    by simp
next
  case False
  then have low: "fmul (fsub 1 (distance (known ! i) q)) 100 < MIN_CONFIDENCE" by simp
  show ?thesis
    using matched_low [of image_data encode pre q rest known distance i names post]
      assms(1-5) low
    by simp
qed

text \<open>
  Claim C1. For a request whose first matching detected face \<open>q\<close> is within tolerance
  of some gallery entry, the entry chosen is the first such entry in gallery order,
  whatever the distances of the entries after it: a later entry that is strictly closer
  does not change the answer. Its name is the name in the response whenever the handler
  answers with the match (the notifier is not called, or no exception leaves it), and
  it is the name sent to the notifier whenever the notifier is called. (In the instance
  below the gallery is alice at distance 0.3 and then bob at distance 0.1, and the name
  is alice.)
\<close>

theorem first_match_wins:
  assumes "image_data \<noteq> []" and "encode image_data = Inr (pre @ q # rest)"
    and "\<forall>p\<in>set pre. \<forall>k\<in>set known. \<not> distance k p \<le> TOLERANCE"
    and "first_match distance known q i" and "length names = length known"
  shows "((\<forall>a<MAX_RETRIES. \<not> escapes (post a)) \<or>
          fmul (fsub 1 (distance (known ! i) q)) 100 < 65 \<longrightarrow>
            map_of (body (fst (compare_faces encode distance post known names (Some image_data))))
              ''name'' = Some (JStr (names ! i)) \<and>
            http_status (fst (compare_faces encode distance post known names (Some image_data)))
              = 200) \<and>
         (65 \<le> fmul (fsub 1 (distance (known ! i) q)) 100 \<longrightarrow>
            map (\<lambda>data. map_of data ''name'')
              (notifications (snd (compare_faces encode distance post known names (Some image_data))))
              = [Some (JStr (names ! i))])"
proof (intro conjI impI)
  from assms(4,5) have i: "i < length names" by (simp add: first_match_def)
  {
    assume "(\<forall>a<MAX_RETRIES. \<not> escapes (post a)) \<or>
          fmul (fsub 1 (distance (known ! i) q)) 100 < 65"
    then have "(\<forall>a<MAX_RETRIES. \<not> escapes (post a)) \<or>
         fmul (fsub 1 (distance (known ! i) q)) 100 < MIN_CONFIDENCE"
      by (simp add: MIN_CONFIDENCE_def)
    with matched_returns [of image_data encode pre q rest known distance i names post]
      assms(1,2,3,4) i
    obtain extra where
      "fst (compare_faces encode distance post known names (Some image_data)) =
      \<lparr>body =
         [(''status'', JStr ''success''),
          (''message'',
           JStr (if MIN_CONFIDENCE \<le> fmul (fsub 1 (distance (known ! i) q)) 100
                 then ''Match Found! Name: '' @ names ! i
                 else ''Match found but confidence too low ('' @
                      format_2f (fmul (fsub 1 (distance (known ! i) q)) 100) @ ''%)'')),
          (''name'', JStr (names ! i)),
          (''confidence'', JStr (format_2f (fmul (fsub 1 (distance (known ! i) q)) 100) @ ''%'')),
          extra],
       http_status = 200\<rparr>"
      by blast
    then show "map_of (body (fst (compare_faces encode distance post known names (Some image_data))))
              ''name'' = Some (JStr (names ! i))"
      and "http_status (fst (compare_faces encode distance post known names (Some image_data)))
              = 200"
      by simp_all
  }
  {
    assume "65 \<le> fmul (fsub 1 (distance (known ! i) q)) 100"
    then have "MIN_CONFIDENCE \<le> fmul (fsub 1 (distance (known ! i) q)) 100"
      by (simp add: MIN_CONFIDENCE_def)
    with matched_high_trace [of image_data encode pre q rest known distance i names post]
      assms(1,2,3,4) i
    show "map (\<lambda>data. map_of data ''name'')
              (notifications (snd (compare_faces encode distance post known names (Some image_data))))
              = [Some (JStr (names ! i))]"
      by simp
  }
qed

theorem first_match_wins_witness:
  "first_match scenario_distance [1, 2] 0 0 \<and>
   scenario_distance 2 0 \<le> TOLERANCE \<and>
   scenario_distance 2 0 < scenario_distance 1 0 \<and>
   map_of (body (fst (compare_faces one_face scenario_distance ok_200 [1, 2] [''alice'', ''bob'']
        (Some ''jpeg-bytes'')))) ''name'' = Some (JStr ''alice'') \<and>
   map (\<lambda>data. map_of data ''name'')
     (notifications (snd (compare_faces one_face scenario_distance deeply_nested_200 [1, 2]
        [''alice'', ''bob''] (Some ''jpeg-bytes'')))) = [Some (JStr ''alice'')]"
  using first_match_wins [of "''jpeg-bytes''" one_face "[]" 0 "[]" "[1, 2]" scenario_distance 0
          "[''alice'', ''bob'']" ok_200]
        first_match_wins [of "''jpeg-bytes''" one_face "[]" 0 "[]" "[1, 2]" scenario_distance 0
          "[''alice'', ''bob'']" deeply_nested_200]
        confidence_0_3 doubles_within_tolerance
  by (simp add: first_match_def scenario_distance_def one_face_def ok_200_def)

text \<open>
  Claim C3. For a request whose first matching embedding \<open>q\<close> yields the confidence
  \<open>c\<close> (the float \<open>(1 - d) * 100\<close>, \<open>d\<close> the distance to the first matching
  entry): when \<open>c \<ge> 65\<close> the handler calls the notifier exactly once, with the name
  and the formatted confidence, whatever the notifier then does; when \<open>c < 65\<close> it
  does not call the notifier and the message of the response says that the confidence
  was too low.
\<close>

theorem confidence_gate:
  assumes "image_data \<noteq> []" and "encode image_data = Inr (pre @ q # rest)"
    and "\<forall>p\<in>set pre. \<forall>k\<in>set known. \<not> distance k p \<le> TOLERANCE"
    and "first_match distance known q i" and "length names = length known"
  shows "(65 \<le> fmul (fsub 1 (distance (known ! i) q)) 100 \<longrightarrow>
            notifications (snd (compare_faces encode distance post known names (Some image_data)))
              = [[(''name'', JStr (names ! i)),
                  (''confidence'',
                   JStr (format_2f (fmul (fsub 1 (distance (known ! i) q)) 100) @ ''%''))]]) \<and>
         (fmul (fsub 1 (distance (known ! i) q)) 100 < 65 \<longrightarrow>
            notifications (snd (compare_faces encode distance post known names (Some image_data)))
              = [] \<and>
            map_of (body (fst (compare_faces encode distance post known names (Some image_data))))
              ''message''
              = Some (JStr (''Match found but confidence too low ('' @
                   format_2f (fmul (fsub 1 (distance (known ! i) q)) 100) @ ''%)'')))"
proof -
  from assms(4,5) have i: "i < length names" by (simp add: first_match_def)
  show ?thesis
  proof (cases "MIN_CONFIDENCE \<le> fmul (fsub 1 (distance (known ! i) q)) 100")
    case True
    show ?thesis
      using matched_high_trace [of image_data encode pre q rest known distance i names post]
        assms i True
      by (simp add: MIN_CONFIDENCE_def)
  next
    case False
    then have low: "fmul (fsub 1 (distance (known ! i) q)) 100 < MIN_CONFIDENCE" by simp
    show ?thesis
      using matched_low [of image_data encode pre q rest known distance i names post]
        assms i low
      by (simp add: MIN_CONFIDENCE_def)
  qed
qed

theorem confidence_gate_witness:
  "notifications (snd (compare_faces one_face (\<lambda>k q. double_0_35) ok_200 [1] [''alice'']
        (Some ''jpeg-bytes'')))
     = [[(''name'', JStr ''alice''), (''confidence'', JStr ''65.00%'')]] \<and>
   notifications (snd (compare_faces one_face (\<lambda>k q. double_0_35) deeply_nested_200 [1]
        [''alice''] (Some ''jpeg-bytes'')))
     = [[(''name'', JStr ''alice''), (''confidence'', JStr ''65.00%'')]] \<and>
   notifications (snd (compare_faces one_face (\<lambda>k q. double_0_4) ok_200 [1] [''alice'']
        (Some ''jpeg-bytes'')))
     = [] \<and>
   map_of (body (fst (compare_faces one_face (\<lambda>k q. double_0_4) ok_200 [1] [''alice'']
        (Some ''jpeg-bytes''))))
     ''message'' = Some (JStr ''Match found but confidence too low (60.00%)'')"
  using confidence_gate [of "''jpeg-bytes''" one_face "[]" 0 "[]" "[1::nat]"
          "\<lambda>k q. double_0_35" 0 "[''alice'']" ok_200]
        confidence_gate [of "''jpeg-bytes''" one_face "[]" 0 "[]" "[1::nat]"
          "\<lambda>k q. double_0_35" 0 "[''alice'']" deeply_nested_200]
        confidence_gate [of "''jpeg-bytes''" one_face "[]" 0 "[]" "[1::nat]"
          "\<lambda>k q. double_0_4" 0 "[''alice'']" ok_200]
        confidence_0_35 confidence_0_4 format_2f_65 format_2f_60 doubles_within_tolerance
  by (simp add: first_match_def one_face_def)

text \<open>
  Claim C4. For a matched gallery entry at distance \<open>d\<close> the confidence reported is the
  float \<open>(1 - d) * 100\<close> (each operation rounded to binary64) in the format
  \<open>.2f\<close> followed by a percent sign, with no clamping to the range from 0 to 100: in
  the response whenever the handler answers with the match, and in what is sent to the
  notifier whenever it is called. In the instances below the distance 0.20035 is
  reported as \<open>79.97%\<close> (exact arithmetic would give 79.96), the distance 0.49875 as
  \<open>50.12%\<close> (the float is exactly 50.125, a tie, rounded to even), and the distance
  -0.2 as \<open>120.00%\<close>.
\<close>

theorem confidence_formula:
  assumes "image_data \<noteq> []" and "encode image_data = Inr (pre @ q # rest)"
    and "\<forall>p\<in>set pre. \<forall>k\<in>set known. \<not> distance k p \<le> TOLERANCE"
    and "first_match distance known q i" and "length names = length known"
  shows "((\<forall>a<MAX_RETRIES. \<not> escapes (post a)) \<or>
          fmul (fsub 1 (distance (known ! i) q)) 100 < 65 \<longrightarrow>
            map_of (body (fst (compare_faces encode distance post known names (Some image_data))))
              ''confidence''
            = Some (JStr (format_2f (fmul (fsub 1 (distance (known ! i) q)) 100) @ ''%''))) \<and>
         (65 \<le> fmul (fsub 1 (distance (known ! i) q)) 100 \<longrightarrow>
            map (\<lambda>data. map_of data ''confidence'')
              (notifications (snd (compare_faces encode distance post known names (Some image_data))))
            = [Some (JStr (format_2f (fmul (fsub 1 (distance (known ! i) q)) 100) @ ''%''))])"
proof (intro conjI impI)
  from assms(4,5) have i: "i < length names" by (simp add: first_match_def)
  {
    assume "(\<forall>a<MAX_RETRIES. \<not> escapes (post a)) \<or>
          fmul (fsub 1 (distance (known ! i) q)) 100 < 65"
    then have "(\<forall>a<MAX_RETRIES. \<not> escapes (post a)) \<or>
         fmul (fsub 1 (distance (known ! i) q)) 100 < MIN_CONFIDENCE"
      by (simp add: MIN_CONFIDENCE_def)
    with matched_returns [of image_data encode pre q rest known distance i names post]
      assms(1,2,3,4) i
    obtain extra where
      "fst (compare_faces encode distance post known names (Some image_data)) =
      \<lparr>body =
         [(''status'', JStr ''success''),
          (''message'',
           JStr (if MIN_CONFIDENCE \<le> fmul (fsub 1 (distance (known ! i) q)) 100
                 then ''Match Found! Name: '' @ names ! i
                 else ''Match found but confidence too low ('' @
                      format_2f (fmul (fsub 1 (distance (known ! i) q)) 100) @ ''%)'')),
          (''name'', JStr (names ! i)),
          (''confidence'', JStr (format_2f (fmul (fsub 1 (distance (known ! i) q)) 100) @ ''%'')),
          extra],
       http_status = 200\<rparr>"
      by blast
    then show "map_of (body (fst (compare_faces encode distance post known names (Some image_data))))
              ''confidence''
            = Some (JStr (format_2f (fmul (fsub 1 (distance (known ! i) q)) 100) @ ''%''))"
      by simp
  }
  {
    assume "65 \<le> fmul (fsub 1 (distance (known ! i) q)) 100"
    then have "MIN_CONFIDENCE \<le> fmul (fsub 1 (distance (known ! i) q)) 100"
      by (simp add: MIN_CONFIDENCE_def)
    with matched_high_trace [of image_data encode pre q rest known distance i names post]
      assms(1,2,3,4) i
    show "map (\<lambda>data. map_of data ''confidence'')
              (notifications (snd (compare_faces encode distance post known names (Some image_data))))
            = [Some (JStr (format_2f (fmul (fsub 1 (distance (known ! i) q)) 100) @ ''%''))]"
      by simp
  }
qed

theorem confidence_formula_witness:
  "map_of (body (fst (compare_faces one_face scenario_distance ok_200 [1, 2] [''alice'', ''bob'']
        (Some ''jpeg-bytes'')))) ''confidence'' = Some (JStr ''70.00%'') \<and>
   map_of (body (fst (compare_faces one_face (\<lambda>k q. double_0_20035) ok_200 [1] [''alice'']
        (Some ''jpeg-bytes'')))) ''confidence'' = Some (JStr ''79.97%'') \<and>
   map_of (body (fst (compare_faces one_face (\<lambda>k q. double_0_49875) ok_200 [1] [''alice'']
        (Some ''jpeg-bytes'')))) ''confidence'' = Some (JStr ''50.12%'') \<and>
   map_of (body (fst (compare_faces one_face (\<lambda>k q. double_minus_0_2) ok_200 [1] [''alice'']
        (Some ''jpeg-bytes'')))) ''confidence'' = Some (JStr ''120.00%'') \<and>
   map (\<lambda>data. map_of data ''confidence'')
     (notifications (snd (compare_faces one_face (\<lambda>k q. double_0_20035) deeply_nested_200 [1]
        [''alice''] (Some ''jpeg-bytes'')))) = [Some (JStr ''79.97%'')]"
  using confidence_formula [of "''jpeg-bytes''" one_face "[]" 0 "[]" "[1, 2]" scenario_distance 0
          "[''alice'', ''bob'']" ok_200]
        confidence_formula [of "''jpeg-bytes''" one_face "[]" 0 "[]" "[1::nat]"
          "\<lambda>k q. double_0_20035" 0 "[''alice'']" ok_200]
        confidence_formula [of "''jpeg-bytes''" one_face "[]" 0 "[]" "[1::nat]"
          "\<lambda>k q. double_0_49875" 0 "[''alice'']" ok_200]
        confidence_formula [of "''jpeg-bytes''" one_face "[]" 0 "[]" "[1::nat]"
          "\<lambda>k q. double_minus_0_2" 0 "[''alice'']" ok_200]
        confidence_formula [of "''jpeg-bytes''" one_face "[]" 0 "[]" "[1::nat]"
          "\<lambda>k q. double_0_20035" 0 "[''alice'']" deeply_nested_200]
        confidence_0_3 confidence_0_20035 confidence_0_49875 confidence_minus_0_2
        format_2f_70 format_2f_79_97 format_2f_50_12 format_2f_120 doubles_within_tolerance
  by (simp add: first_match_def scenario_distance_def one_face_def ok_200_def)

lemma on_match_notifications:
  "on_match post names matches dists = (r, evs) \<Longrightarrow> length (notifications evs) \<le> 1"
  by (auto simp add: on_match_def Let_def split: prod.splits if_splits sum.splits)

lemma match_loop_notifications:
  "length (notifications (snd (match_loop distance post known names qs))) \<le> 1"
proof (induction qs)
  case Nil
  then show ?case by simp
next
  case (Cons q qs)
  show ?case
  proof (cases "True \<in> set (lib_compare_faces distance known q TOLERANCE)")
    case True
    then show ?thesis
      using on_match_notifications [of post names "lib_compare_faces distance known q TOLERANCE"
              "face_distance distance known q"]
      by (auto simp add: Let_def split: prod.splits)
  next
    case False
    then show ?thesis using Cons.IH by (auto simp add: Let_def split: prod.splits)
  qed
qed

lemma compare_faces_notifications:
  "length (notifications (snd (compare_faces encode distance post known names image_field))) \<le> 1"
proof (cases image_field)
  case None
  then show ?thesis by (simp add: compare_faces_def)
next
  case (Some image_data)
  show ?thesis
  proof (cases "image_data = []")
    case True
    with Some show ?thesis by (simp add: compare_faces_def process_image_def)
  next
    case False
    show ?thesis
    proof (cases "encode image_data")
      case (Inl e)
      with Some False show ?thesis by (simp add: compare_faces_def process_image_def)
    next
      case (Inr qs)
      show ?thesis
      proof (cases "qs = []")
        case True
        with Some False Inr show ?thesis by (simp add: compare_faces_def process_image_def)
      next
        case qs: False
        show ?thesis
          using compare_faces_trace [of image_data encode qs distance post known names]
            match_loop_notifications [of distance post known names qs] Some False Inr qs
          by simp
      qed
    qed
  qed
qed

text \<open>
  Claim C5. The handler evaluates the detected embeddings in detection order and stops
  at the first embedding that matches a gallery entry: the embeddings after it are not
  evaluated, and the answer is the success response for that embedding (whenever the
  notifier is not called or no exception leaves it). Every request, whatever it holds
  and whatever the downstream endpoint does, calls the notifier at most once.
\<close>

theorem first_matching_face_short_circuits:
  "length (notifications (snd (compare_faces encode distance post known names image_field))) \<le> 1 \<and>
   (image_data \<noteq> [] \<and> encode image_data = Inr (pre @ q # rest) \<and>
    (\<forall>p\<in>set pre. \<forall>k\<in>set known. \<not> distance k p \<le> TOLERANCE) \<and>
    first_match distance known q i \<and> length names = length known \<longrightarrow>
      compared (snd (compare_faces encode distance post known names (Some image_data)))
        = pre @ [q] \<and>
      ((\<forall>a<MAX_RETRIES. \<not> escapes (post a)) \<or>
       fmul (fsub 1 (distance (known ! i) q)) 100 < 65 \<longrightarrow>
         map_of (body (fst (compare_faces encode distance post known names (Some image_data))))
           ''status'' = Some (JStr ''success'') \<and>
         map_of (body (fst (compare_faces encode distance post known names (Some image_data))))
           ''name'' = Some (JStr (names ! i)) \<and>
         http_status (fst (compare_faces encode distance post known names (Some image_data)))
           = 200))"
proof (intro conjI impI)
  show "length (notifications (snd (compare_faces encode distance post known names image_field))) \<le> 1"
    by (rule compare_faces_notifications)
next
  assume a: "image_data \<noteq> [] \<and> encode image_data = Inr (pre @ q # rest) \<and>
    (\<forall>p\<in>set pre. \<forall>k\<in>set known. \<not> distance k p \<le> TOLERANCE) \<and>
    first_match distance known q i \<and> length names = length known"
  then have i: "i < length names" by (simp add: first_match_def)
  show "compared (snd (compare_faces encode distance post known names (Some image_data)))
        = pre @ [q]"
  proof (cases "MIN_CONFIDENCE \<le> fmul (fsub 1 (distance (known ! i) q)) 100")
    case True
    show ?thesis
      using matched_high_trace [of image_data encode pre q rest known distance i names post]
        a i True
      by simp
  next
    case False
    then have low: "fmul (fsub 1 (distance (known ! i) q)) 100 < MIN_CONFIDENCE" by simp
    show ?thesis
      using matched_low [of image_data encode pre q rest known distance i names post]
        a i low
      by simp
  qed
  {
    assume "(\<forall>a<MAX_RETRIES. \<not> escapes (post a)) \<or>
       fmul (fsub 1 (distance (known ! i) q)) 100 < 65"
    then have "(\<forall>a<MAX_RETRIES. \<not> escapes (post a)) \<or>
         fmul (fsub 1 (distance (known ! i) q)) 100 < MIN_CONFIDENCE"
      by (simp add: MIN_CONFIDENCE_def)
    with matched_returns [of image_data encode pre q rest known distance i names post] a i
    obtain extra where
      "fst (compare_faces encode distance post known names (Some image_data)) =
      \<lparr>body =
         [(''status'', JStr ''success''),
          (''message'',
           JStr (if MIN_CONFIDENCE \<le> fmul (fsub 1 (distance (known ! i) q)) 100
                 then ''Match Found! Name: '' @ names ! i
                 else ''Match found but confidence too low ('' @
                      format_2f (fmul (fsub 1 (distance (known ! i) q)) 100) @ ''%)'')),
          (''name'', JStr (names ! i)),
          (''confidence'', JStr (format_2f (fmul (fsub 1 (distance (known ! i) q)) 100) @ ''%'')),
          extra],
       http_status = 200\<rparr>"
      by blast
    then show "map_of (body (fst (compare_faces encode distance post known names (Some image_data))))
           ''status'' = Some (JStr ''success'')"
      and "map_of (body (fst (compare_faces encode distance post known names (Some image_data))))
           ''name'' = Some (JStr (names ! i))"
      and "http_status (fst (compare_faces encode distance post known names (Some image_data)))
           = 200"
      by simp_all
  }
qed

theorem first_matching_face_short_circuits_witness:
  "compared (snd (compare_faces (\<lambda>b. Inr [7, 8, 9::nat])
        (\<lambda>k q. if q = 8 then double_0_3 else 9 / 10) unreachable [1::nat] [''alice'']
        (Some ''jpeg-bytes''))) = [7, 8] \<and>
   map_of (body (fst (compare_faces (\<lambda>b. Inr [7, 8, 9::nat])
        (\<lambda>k q. if q = 8 then double_0_3 else 9 / 10) unreachable [1::nat] [''alice'']
        (Some ''jpeg-bytes'')))) ''name'' = Some (JStr ''alice'') \<and>
   compared (snd (compare_faces (\<lambda>b. Inr [7, 8, 9::nat])
        (\<lambda>k q. if q = 8 then double_0_3 else 9 / 10) deeply_nested_200 [1::nat] [''alice'']
        (Some ''jpeg-bytes''))) = [7, 8]"
  using first_matching_face_short_circuits [of "\<lambda>b. Inr [7, 8, 9::nat]"
          "\<lambda>k q. if q = 8 then double_0_3 else 9 / 10" unreachable
          "[1::nat]" "[''alice'']" "Some ''jpeg-bytes''" "''jpeg-bytes''" "[7]" 8 "[9]" 0]
        first_matching_face_short_circuits [of "\<lambda>b. Inr [7, 8, 9::nat]"
          "\<lambda>k q. if q = 8 then double_0_3 else 9 / 10" deeply_nested_200
          "[1::nat]" "[''alice'']" "Some ''jpeg-bytes''" "''jpeg-bytes''" "[7]" 8 "[9]" 0]
        doubles_within_tolerance
  by (simp add: first_match_def TOLERANCE_def unreachable_def)

lemma send_to_nodejs_all_fail:
  "(\<forall>a<retries. \<exists>e. post a = RequestException e) \<Longrightarrow>
   fst (send_to_nodejs post data retries) = Inr JNull"
proof -
  assume "\<forall>a<retries. \<exists>e. post a = RequestException e"
  then have "\<forall>i. 0 \<le> i \<and> i < retries \<longrightarrow> caught (post i)" by auto
  from send_loop_all_caught [OF this, of data] show ?thesis
    by (simp add: send_to_nodejs_def)
qed

lemma send_to_nodejs_non_200:
  "0 < retries \<Longrightarrow> post 0 = Response s jr \<Longrightarrow> s \<noteq> 200 \<Longrightarrow>
   fst (send_to_nodejs post data retries) =
     Inr (JObj [(''status'', JStr ''partial_success''),
                (''message'', JStr ''Data sent but Node.js returned non-200 status''),
                (''node_status'', JInt (int s))])"
  using send_loop_non_200 [of 0 retries post s jr data] by (simp add: send_to_nodejs_def)

text \<open>
  Claim C6, as amended. When a match is found and the notifier is called (exactly once),
  the handler answers with HTTP 200 and status \<open>success\<close> whenever the notifier
  returns, that is, whenever no exception other than a \<open>RequestException\<close> is raised
  in it. In particular, when every attempt ends in a network error the body carries
  \<open>node_status\<close> (no response from Node.js), and when the downstream status is not 200
  the body carries the partial-success object with that status under
  \<open>node_response\<close>.
\<close>

theorem notifier_failure_stays_success:
  assumes "image_data \<noteq> []" and "encode image_data = Inr (pre @ q # rest)"
    and "\<forall>p\<in>set pre. \<forall>k\<in>set known. \<not> distance k p \<le> TOLERANCE"
    and "first_match distance known q i" and "length names = length known"
    and "65 \<le> fmul (fsub 1 (distance (known ! i) q)) 100"
  shows
   "length (notifications (snd (compare_faces encode distance post known names (Some image_data))))
      = 1 \<and>
    ((\<forall>a<MAX_RETRIES. \<not> escapes (post a)) \<longrightarrow>
       http_status (fst (compare_faces encode distance post known names (Some image_data))) = 200 \<and>
       map_of (body (fst (compare_faces encode distance post known names (Some image_data))))
         ''status'' = Some (JStr ''success'')) \<and>
    ((\<forall>a<MAX_RETRIES. \<exists>e. post a = RequestException e) \<longrightarrow>
       http_status (fst (compare_faces encode distance post known names (Some image_data))) = 200 \<and>
       map_of (body (fst (compare_faces encode distance post known names (Some image_data))))
         ''status'' = Some (JStr ''success'') \<and>
       map_of (body (fst (compare_faces encode distance post known names (Some image_data))))
         ''node_status'' = Some (JStr ''Data sent but no response from Node.js'')) \<and>
    (\<forall>s jr. post 0 = Response s jr \<and> s \<noteq> 200 \<longrightarrow>
       http_status (fst (compare_faces encode distance post known names (Some image_data))) = 200 \<and>
       map_of (body (fst (compare_faces encode distance post known names (Some image_data))))
         ''status'' = Some (JStr ''success'') \<and>
       map_of (body (fst (compare_faces encode distance post known names (Some image_data))))
         ''node_response'' =
         Some (JObj [(''status'', JStr ''partial_success''),
                     (''message'', JStr ''Data sent but Node.js returned non-200 status''),
                     (''node_status'', JInt (int s))]))"
proof -
  from assms(4,5) have i: "i < length names" by (simp add: first_match_def)
  from assms(6) have high: "MIN_CONFIDENCE \<le> fmul (fsub 1 (distance (known ! i) q)) 100"
    by (simp add: MIN_CONFIDENCE_def)
  define payload where "payload =
    [(''name'', JStr (names ! i)),
     (''confidence'', JStr (format_2f (fmul (fsub 1 (distance (known ! i) q)) 100) @ ''%''))]"
  have resp: "fst (compare_faces encode distance post known names (Some image_data)) =
     \<lparr>body =
         [(''status'', JStr ''success''),
          (''message'', JStr (''Match Found! Name: '' @ names ! i)),
          (''name'', JStr (names ! i)),
          (''confidence'', JStr (format_2f (fmul (fsub 1 (distance (known ! i) q)) 100) @ ''%'')),
          (if truthy nr then (''node_response'', nr)
           else (''node_status'', JStr ''Data sent but no response from Node.js''))],
       http_status = 200\<rparr>"
    if "fst (send_to_nodejs post payload MAX_RETRIES) = Inr nr" for nr
  proof -
    from that have "send_to_nodejs post payload MAX_RETRIES
        = (Inr nr, snd (send_to_nodejs post payload MAX_RETRIES))"
      by (simp add: prod_eq_iff)
    then show ?thesis
      using matched_high [of image_data encode pre q rest known distance i names post nr
          "snd (send_to_nodejs post payload MAX_RETRIES)"] assms(1-4) i high
      by (simp add: payload_def)
  qed
  have one: "length (notifications
      (snd (compare_faces encode distance post known names (Some image_data)))) = 1"
    using matched_high_trace [of image_data encode pre q rest known distance i names post]
      assms(1-4) i high
    by simp
  have ret: "http_status (fst (compare_faces encode distance post known names (Some image_data)))
        = 200 \<and>
       map_of (body (fst (compare_faces encode distance post known names (Some image_data))))
         ''status'' = Some (JStr ''success'')"
    if "\<forall>a<MAX_RETRIES. \<not> escapes (post a)"
  proof -
    from that obtain nr nevs where "send_to_nodejs post payload MAX_RETRIES = (Inr nr, nevs)"
      by (rule send_to_nodejs_returns)
    then have "fst (send_to_nodejs post payload MAX_RETRIES) = Inr nr" by simp
    from resp [OF this] show ?thesis by simp
  qed
  have fail: "http_status (fst (compare_faces encode distance post known names (Some image_data)))
        = 200 \<and>
       map_of (body (fst (compare_faces encode distance post known names (Some image_data))))
         ''status'' = Some (JStr ''success'') \<and>
       map_of (body (fst (compare_faces encode distance post known names (Some image_data))))
         ''node_status'' = Some (JStr ''Data sent but no response from Node.js'')"
    if "\<forall>a<MAX_RETRIES. \<exists>e. post a = RequestException e"
  proof -
    from that have "fst (send_to_nodejs post payload MAX_RETRIES) = Inr JNull"
      by (rule send_to_nodejs_all_fail)
    from resp [OF this] show ?thesis by simp
  qed
  have part: "http_status (fst (compare_faces encode distance post known names (Some image_data)))
        = 200 \<and>
       map_of (body (fst (compare_faces encode distance post known names (Some image_data))))
         ''status'' = Some (JStr ''success'') \<and>
       map_of (body (fst (compare_faces encode distance post known names (Some image_data))))
         ''node_response'' =
         Some (JObj [(''status'', JStr ''partial_success''),
                     (''message'', JStr ''Data sent but Node.js returned non-200 status''),
                     (''node_status'', JInt (int s))])"
    if "post 0 = Response s jr \<and> s \<noteq> 200" for s jr
  proof -
    have "0 < MAX_RETRIES" by (simp add: MAX_RETRIES_def)
    with that send_to_nodejs_non_200 [of MAX_RETRIES post s jr payload]
    have "fst (send_to_nodejs post payload MAX_RETRIES) =
      Inr (JObj [(''status'', JStr ''partial_success''),
                (''message'', JStr ''Data sent but Node.js returned non-200 status''),
                (''node_status'', JInt (int s))])"
      by simp
    from resp [OF this] show ?thesis by simp
  qed
  from one ret fail part show ?thesis by blast
qed

theorem notifier_failure_stays_success_witness:
  "http_status (fst (compare_faces one_face scenario_distance unreachable [1, 2]
        [''alice'', ''bob''] (Some ''jpeg-bytes''))) = 200 \<and>
   map_of (body (fst (compare_faces one_face scenario_distance unreachable [1, 2]
        [''alice'', ''bob''] (Some ''jpeg-bytes''))))
     ''node_status'' = Some (JStr ''Data sent but no response from Node.js'') \<and>
   http_status (fst (compare_faces one_face scenario_distance unavailable_503 [1, 2]
        [''alice'', ''bob''] (Some ''jpeg-bytes''))) = 200 \<and>
   map_of (body (fst (compare_faces one_face scenario_distance unavailable_503 [1, 2]
        [''alice'', ''bob''] (Some ''jpeg-bytes''))))
     ''node_response'' =
       Some (JObj [(''status'', JStr ''partial_success''),
                   (''message'', JStr ''Data sent but Node.js returned non-200 status''),
                   (''node_status'', JInt 503)]) \<and>
   http_status (fst (compare_faces one_face scenario_distance undecodable_200 [1, 2]
        [''alice'', ''bob''] (Some ''jpeg-bytes''))) = 200"
  using notifier_failure_stays_success [of "''jpeg-bytes''" one_face "[]" 0 "[]" "[1, 2]"
          scenario_distance 0 "[''alice'', ''bob'']" unreachable]
        notifier_failure_stays_success [of "''jpeg-bytes''" one_face "[]" 0 "[]" "[1, 2]"
          scenario_distance 0 "[''alice'', ''bob'']" unavailable_503]
        notifier_failure_stays_success [of "''jpeg-bytes''" one_face "[]" 0 "[]" "[1, 2]"
          scenario_distance 0 "[''alice'', ''bob'']" undecodable_200]
        confidence_0_3 doubles_within_tolerance
  by (simp add: first_match_def scenario_distance_def one_face_def unreachable_def
        unavailable_503_def undecodable_200_def)

text \<open>
  The claim as first stated fails when an exception that is not a
  \<open>RequestException\<close> is raised in the notifier: a 200 whose body is nested too deeply
  makes \<open>response.json()\<close> raise RecursionError, which leaves the notifier and is
  answered by the handler's \<open>except Exception\<close> with status 500, although a match was
  found and the notifier was called.
\<close>

theorem notifier_failure_stays_success_counterexample:
  "first_match scenario_distance [1, 2] 0 0 \<and>
   65 \<le> fmul (fsub 1 (scenario_distance 1 0)) 100 \<and>
   compare_faces one_face scenario_distance deeply_nested_200 [1, 2] [''alice'', ''bob'']
     (Some ''jpeg-bytes'') =
   (\<lparr>body =
       [(''status'', JStr ''error''),
        (''message'',
         JStr (''Error processing the image: '' @
           ''maximum recursion depth exceeded while decoding a JSON array from a unicode string''))],
     http_status = 500\<rparr>,
    [Compare 0, Notify alice_payload, Net (Post alice_payload)])"
proof -
  have fm: "first_match scenario_distance [1, 2] 0 0"
    using doubles_within_tolerance by (simp add: first_match_def scenario_distance_def)
  have c: "fmul (fsub 1 (scenario_distance ([1, 2] ! 0) 0)) 100 = 70"
    using confidence_0_3 by (simp add: scenario_distance_def)
  have s: "send_to_nodejs deeply_nested_200 alice_payload MAX_RETRIES =
     (Inl (OtherException
        ''maximum recursion depth exceeded while decoding a JSON array from a unicode string''),
      [Post alice_payload])"
    by (simp add: send_to_nodejs_def MAX_RETRIES_def deeply_nested_200_def
          send_loop.simps [of _ _ 3 0])
  have "compare_faces one_face scenario_distance deeply_nested_200 [1, 2] [''alice'', ''bob'']
     (Some ''jpeg-bytes'') =
   (\<lparr>body =
       [(''status'', JStr ''error''),
        (''message'',
         JStr (''Error processing the image: '' @
           ''maximum recursion depth exceeded while decoding a JSON array from a unicode string''))],
     http_status = 500\<rparr>,
    [Compare 0, Notify alice_payload, Net (Post alice_payload)])"
    using matched_raise [of "''jpeg-bytes''" one_face "[]" 0 "[]" "[1, 2]" scenario_distance 0
        "[''alice'', ''bob'']" deeply_nested_200
        "''maximum recursion depth exceeded while decoding a JSON array from a unicode string''"
        "[Post alice_payload]"] fm c s format_2f_70
    by (simp add: one_face_def MIN_CONFIDENCE_def alice_payload_def)
  with fm c show ?thesis by simp
qed

subsection \<open>Requests without a match\<close>

text \<open>
  Claim C7. The handler answers 400 with status \<open>error\<close> and the message
  \<open>No image uploaded\<close> when the field \<open>image\<close> is absent,
  \<open>Face recognition error: Empty image data\<close> when the uploaded bytes are empty, and
  \<open>No face detected in uploaded image\<close> when no embedding is extracted.
\<close>

theorem validation_errors:
  "compare_faces encode distance post known names None =
     (\<lparr>body = [(''status'', JStr ''error''), (''message'', JStr ''No image uploaded'')],
       http_status = 400\<rparr>, []) \<and>
   compare_faces encode distance post known names (Some []) =
     (\<lparr>body = [(''status'', JStr ''error''),
               (''message'', JStr ''Face recognition error: Empty image data'')],
       http_status = 400\<rparr>, []) \<and>
   (image_data \<noteq> [] \<and> encode image_data = Inr [] \<longrightarrow>
      compare_faces encode distance post known names (Some image_data) =
        (\<lparr>body = [(''status'', JStr ''error''),
                  (''message'', JStr ''No face detected in uploaded image'')],
          http_status = 400\<rparr>, []))"
  by (simp add: compare_faces_def process_image_def error_response_def)

theorem validation_errors_witness:
  "compare_faces (\<lambda>b. Inr []) (\<lambda>k q. 3 / 10) ok_200 [1::nat] [''alice'']
     (Some ''not-a-face'') =
     (\<lparr>body = [(''status'', JStr ''error''),
               (''message'', JStr ''No face detected in uploaded image'')],
       http_status = 400\<rparr>, [])"
  using validation_errors [of "\<lambda>b. Inr []" "\<lambda>k q. 3 / 10" ok_200 "[1::nat]"
          "[''alice'']" "''not-a-face''"]
  by simp

text \<open>
  Claim C8. When at least one face is detected and no detected embedding is within
  tolerance of any gallery entry, the handler answers 200 with status \<open>not_found\<close>,
  message \<open>No Match Found\<close>, a null name and confidence \<open>0%\<close>, after evaluating
  every embedding; so it does for every such request against the empty gallery.
\<close>

theorem no_match_not_found:
  assumes "image_data \<noteq> []" and "encode image_data = Inr qs" and "qs \<noteq> []"
  shows "((\<forall>q\<in>set qs. \<forall>k\<in>set known. \<not> distance k q \<le> TOLERANCE) \<longrightarrow>
           compare_faces encode distance post known names (Some image_data) =
             (\<lparr>body = [(''status'', JStr ''not_found''), (''message'', JStr ''No Match Found''),
                       (''name'', JNull), (''confidence'', JStr ''0%'')],
               http_status = 200\<rparr>, map Compare qs)) \<and>
         compare_faces encode distance post [] names (Some image_data) =
             (\<lparr>body = [(''status'', JStr ''not_found''), (''message'', JStr ''No Match Found''),
                       (''name'', JNull), (''confidence'', JStr ''0%'')],
               http_status = 200\<rparr>, map Compare qs)"
proof -
  have "compare_faces encode distance post known' names (Some image_data) =
             (\<lparr>body = [(''status'', JStr ''not_found''), (''message'', JStr ''No Match Found''),
                       (''name'', JNull), (''confidence'', JStr ''0%'')],
               http_status = 200\<rparr>, map Compare qs)"
    if "\<forall>q\<in>set qs. \<forall>k\<in>set known'. \<not> distance k q \<le> TOLERANCE" for known'
    using match_loop_none [OF that, of post names]
      compare_faces_valid [of image_data encode qs distance post known' names] assms
    by (simp add: not_found_response_def)
  from this [of known] this [of "[]"] show ?thesis by simp
qed

theorem no_match_not_found_witness:
  "compare_faces (\<lambda>b. Inr [7, 8::nat]) (\<lambda>k q. 6 / 10) ok_200 [1::nat] [''alice'']
     (Some ''jpeg-bytes'') =
     (\<lparr>body = [(''status'', JStr ''not_found''), (''message'', JStr ''No Match Found''),
               (''name'', JNull), (''confidence'', JStr ''0%'')],
       http_status = 200\<rparr>, [Compare 7, Compare 8]) \<and>
   compare_faces (\<lambda>b. Inr [7, 8::nat]) (\<lambda>k q. 1 / 10) ok_200 [] []
     (Some ''jpeg-bytes'') =
     (\<lparr>body = [(''status'', JStr ''not_found''), (''message'', JStr ''No Match Found''),
               (''name'', JNull), (''confidence'', JStr ''0%'')],
       http_status = 200\<rparr>, [Compare 7, Compare 8])"
  using no_match_not_found [of "''jpeg-bytes''" "\<lambda>b. Inr [7, 8::nat]" "[7, 8]" "[1::nat]"
          "\<lambda>k q. 6 / 10" ok_200 "[''alice'']"]
        no_match_not_found [of "''jpeg-bytes''" "\<lambda>b. Inr [7, 8::nat]" "[7, 8]" "[]"
          "\<lambda>k q. 1 / 10" ok_200 "[]"]
  by (simp add: TOLERANCE_def)

subsection \<open>The gallery loader\<close>

lemma load_loop_kept:
  "load_loop load filenames encs names =
     (encs @ map fst (List.map_filter (kept load) filenames),
      names @ map snd (List.map_filter (kept load) filenames))"
proof (induction filenames arbitrary: encs names)
  case Nil
  then show ?case by (simp add: List.map_filter_simps)
next
  case (Cons filename rest)
  show ?case
  proof (cases "kept load filename")
    case None
    then have "load_loop load (filename # rest) encs names = load_loop load rest encs names"
      by (auto simp add: kept_def split: if_splits sum.splits list.splits)
    with None Cons.IH show ?thesis by (simp add: List.map_filter_simps)
  next
    case (Some en)
    then have "load_loop load (filename # rest) encs names =
                 load_loop load rest (encs @ [fst en]) (names @ [snd en])"
      by (auto simp add: kept_def split: if_splits sum.splits list.splits)
    with Some Cons.IH show ?thesis by (simp add: List.map_filter_simps)
  qed
qed

lemma rfind_from_absent: "c \<notin> set s \<Longrightarrow> rfind_from c s i found = found"
  by (induction s arbitrary: i found) auto

lemma rfind_from_last:
  "c \<notin> set ys \<Longrightarrow> rfind_from c (xs @ c # ys) i found = i + int (length xs)"
proof (induction xs arbitrary: i found)
  case Nil
  then show ?case by (simp add: rfind_from_absent)
next
  case (Cons x xs)
  then show ?case by simp
qed

lemma splitext_stem:
  assumes "CHR ''/'' \<notin> set stem" and "CHR ''/'' \<notin> set ext" and "CHR ''.'' \<notin> set ext"
    and "\<exists>c\<in>set stem. c \<noteq> CHR ''.''"
  shows "splitext (stem @ CHR ''.'' # ext) = (stem, CHR ''.'' # ext)"
proof -
  have sep: "rfind (stem @ CHR ''.'' # ext) CHR ''/'' = - 1"
    using assms(1,2) by (simp add: rfind_def rfind_from_absent)
  have dot: "rfind (stem @ CHR ''.'' # ext) CHR ''.'' = int (length stem)"
    using assms(3) by (simp add: rfind_def rfind_from_last)
  from assms(4) have "list_ex (\<lambda>c. c \<noteq> CHR ''.'') stem" by (simp add: list_ex_iff)
  then show ?thesis
    by (simp add: splitext_def sep dot Let_def)
qed

lemma map_filter_append: "List.map_filter f (xs @ ys) = List.map_filter f xs @ List.map_filter f ys"
  by (simp add: List.map_filter_def)

lemma load_listing:
  "load_known_faces load (Listing filenames) =
     Inr (map fst (List.map_filter (kept load) filenames),
          map snd (List.map_filter (kept load) filenames))"
  by (simp add: load_known_faces_def load_loop_kept)

lemma kept_skipped:
  "\<not> endswith_any (lower filename) [''.jpg'', ''.jpeg'', ''.png''] \<or>
   (\<exists>e. load (FACE_FOLDER @ filename) = Inl e) \<or> load (FACE_FOLDER @ filename) = Inr [] \<Longrightarrow>
   kept load filename = None"
  by (auto simp add: kept_def)

lemma kept_first:
  "endswith_any (lower filename) [''.jpg'', ''.jpeg'', ''.png''] \<Longrightarrow>
   load (FACE_FOLDER @ filename) = Inr (face_encoding # others) \<Longrightarrow>
   kept load filename = Some (face_encoding, fst (splitext filename))"
  by (simp add: kept_def)

lemma example_gallery_prefix:
  "load_known_faces example_load
     (Listing [''notes.txt'', ''alice.JPG'', ''broken.png'', ''empty.jpeg''])
   = Inr ([1], [''alice''])"
  by (simp add: load_known_faces_def example_load_def endswith_any_def endswith_def lower_def
        lower_char_def FACE_FOLDER_def splitext_def rfind_def)

lemma example_gallery_suffix:
  "load_known_faces example_load (Listing [''bob.jpg'']) = Inr ([3], [''bob''])"
  by (simp add: load_known_faces_def example_load_def endswith_any_def endswith_def lower_def
        lower_char_def FACE_FOLDER_def splitext_def rfind_def)

lemma example_gallery:
  "load_known_faces example_load
     (Listing [''notes.txt'', ''alice.JPG'', ''broken.png'', ''empty.jpeg'', ''alice.png'',
               ''bob.jpg''])
   = Inr ([1, 1, 3], [''alice'', ''alice'', ''bob''])"
  by (simp add: load_known_faces_def example_load_def endswith_any_def endswith_def lower_def
        lower_char_def FACE_FOLDER_def splitext_def rfind_def)

text \<open>
  A name that is nothing but dots before its last dot has no extension for
  \<open>os.path.splitext\<close>: a file called \<open>.png\<close> passes the suffix test and is kept
  under the name \<open>.png\<close>.
\<close>

lemma splitext_dotfile:
  "splitext ''.png'' = (''.png'', []) \<and> kept (\<lambda>path. Inr [e]) ''.png'' = Some (e, ''.png'')"
  by (simp add: splitext_def rfind_def kept_def endswith_any_def endswith_def lower_def
        lower_char_def)

text \<open>
  Claim C9. A missing folder gives the empty gallery and no exception. In a listing, a
  file whose lower-cased name does not end in \<open>.jpg\<close>, \<open>.jpeg\<close> or \<open>.png\<close>, a file
  whose decoding raises, and a file with no face are passed over, and the files after
  them are still loaded. Any other file adds exactly one entry, at its place in the
  listing: its first embedding, under the first component of \<open>os.path.splitext\<close> of its
  name, which is the name without its last dot and what follows when the name has no
  slash and a character other than a dot before that dot. Nothing is compared with the
  entries already there, so the same embedding and the same name may occur twice.
\<close>

theorem loader_gallery:
  "load_known_faces load Missing = Inr ([], []) \<and>
   (\<not> endswith_any (lower filename) [''.jpg'', ''.jpeg'', ''.png''] \<or>
    (\<exists>e. load (FACE_FOLDER @ filename) = Inl e) \<or> load (FACE_FOLDER @ filename) = Inr [] \<longrightarrow>
      load_known_faces load (Listing (before @ filename # after)) =
        load_known_faces load (Listing (before @ after))) \<and>
   (endswith_any (lower filename) [''.jpg'', ''.jpeg'', ''.png''] \<and>
    load (FACE_FOLDER @ filename) = Inr (face_encoding # others) \<and>
    load_known_faces load (Listing before) = Inr (encs1, names1) \<and>
    load_known_faces load (Listing after) = Inr (encs2, names2) \<longrightarrow>
      load_known_faces load (Listing (before @ filename # after)) =
        Inr (encs1 @ face_encoding # encs2, names1 @ fst (splitext filename) # names2)) \<and>
   (CHR ''/'' \<notin> set stem \<and> CHR ''/'' \<notin> set ext \<and> CHR ''.'' \<notin> set ext \<and>
    (\<exists>c\<in>set stem. c \<noteq> CHR ''.'') \<longrightarrow>
      fst (splitext (stem @ CHR ''.'' # ext)) = stem)"
proof (intro conjI impI)
  show "load_known_faces load Missing = Inr ([], [])"
    by (simp add: load_known_faces_def)
next
  assume "\<not> endswith_any (lower filename) [''.jpg'', ''.jpeg'', ''.png''] \<or>
    (\<exists>e. load (FACE_FOLDER @ filename) = Inl e) \<or> load (FACE_FOLDER @ filename) = Inr []"
  then have "kept load filename = None" by (rule kept_skipped)
  then show "load_known_faces load (Listing (before @ filename # after)) =
        load_known_faces load (Listing (before @ after))"
    by (simp add: load_listing map_filter_append List.map_filter_simps)
next
  assume a: "endswith_any (lower filename) [''.jpg'', ''.jpeg'', ''.png''] \<and>
    load (FACE_FOLDER @ filename) = Inr (face_encoding # others) \<and>
    load_known_faces load (Listing before) = Inr (encs1, names1) \<and>
    load_known_faces load (Listing after) = Inr (encs2, names2)"
  then have "kept load filename = Some (face_encoding, fst (splitext filename))"
    using kept_first [of filename load face_encoding others] by simp
  with a show "load_known_faces load (Listing (before @ filename # after)) =
        Inr (encs1 @ face_encoding # encs2, names1 @ fst (splitext filename) # names2)"
    by (simp add: load_listing map_filter_append List.map_filter_simps)
next
  assume "CHR ''/'' \<notin> set stem \<and> CHR ''/'' \<notin> set ext \<and> CHR ''.'' \<notin> set ext \<and>
    (\<exists>c\<in>set stem. c \<noteq> CHR ''.'')"
  then show "fst (splitext (stem @ CHR ''.'' # ext)) = stem"
    using splitext_stem [of stem ext] by simp
qed

theorem loader_gallery_witness:
  "load_known_faces example_load Missing = Inr ([], []) \<and>
   load_known_faces example_load
     (Listing [''notes.txt'', ''alice.JPG'', ''broken.png'', ''empty.jpeg'', ''alice.png'',
               ''bob.jpg''])
   = Inr ([1, 1, 3], [''alice'', ''alice'', ''bob'']) \<and>
   load_known_faces example_load (Listing [''notes.txt'', ''bob.jpg''])
   = load_known_faces example_load (Listing [''bob.jpg'']) \<and>
   fst (splitext ''alice.JPG'') = ''alice''"
  using loader_gallery [of example_load "''alice.png''"
          "[''notes.txt'', ''alice.JPG'', ''broken.png'', ''empty.jpeg'']" "[''bob.jpg'']"
          1 "[]" "[1]" "[''alice'']" "[3]" "[''bob'']" "''alice''" "''JPG''"]
        loader_gallery [of example_load "''notes.txt''" "[]" "[''bob.jpg'']"]
        example_gallery_prefix example_gallery_suffix
  by (simp add: example_load_def endswith_any_def endswith_def lower_def lower_char_def
        FACE_FOLDER_def splitext_def rfind_def)

lemma load_lengths:
  "load_known_faces load dir = Inr (encs, names) \<Longrightarrow> length encs = length names"
  by (cases dir) (auto simp add: load_known_faces_def load_loop_kept)

lemma send_loop_no_index_error:
  "fst (send_loop post data retries attempt) \<noteq> Inl IndexError"
proof (induction "retries - attempt" arbitrary: attempt)
  case 0
  then show ?case by (simp add: send_loop_done)
next
  case (Suc n)
  then have lt: "attempt < retries" by auto
  from Suc have n: "n = retries - Suc attempt" by simp
  consider (c) "caught (post attempt)" | (e) "escapes (post attempt)"
    | (p) v where "post attempt = Response 200 (Parsed v)"
    | (o) s jr where "post attempt = Response s jr" "s \<noteq> 200"
    using caught_cases [of "post attempt"] by blast
  then show ?case
  proof cases
    case c
    with lt Suc.hyps(1) [OF n] show ?thesis by (simp add: send_loop_caught)
  next
    case e
    with lt send_loop_escapes [of attempt retries post data] show ?thesis by auto
  next
    case p
    with lt show ?thesis by (simp add: send_loop_parsed)
  next
    case o
    with lt show ?thesis by (simp add: send_loop_non_200)
  qed
qed

lemma on_match_no_index_error:
  "index matches True < length names \<Longrightarrow>
   on_match post names matches dists = (r, evs) \<Longrightarrow> r \<noteq> Inl IndexError"
  using send_loop_no_index_error [of post _ MAX_RETRIES 0]
  by (auto simp add: on_match_def send_to_nodejs_def Let_def
        split: prod.splits if_splits sum.splits)
     (metis fst_conv)

lemma on_match_in_range:
  "index matches True < length names \<Longrightarrow> \<forall>a<MAX_RETRIES. \<not> escapes (post a) \<Longrightarrow>
   on_match post names matches dists = (r, evs) \<Longrightarrow> \<exists>resp. r = Inr resp"
proof -
  assume i: "index matches True < length names"
    and ne: "\<forall>a<MAX_RETRIES. \<not> escapes (post a)"
    and om: "on_match post names matches dists = (r, evs)"
  have "\<exists>v. fst (send_to_nodejs post data MAX_RETRIES) = Inr v" for data
    using send_to_nodejs_returns [OF ne, of data] by (metis fst_conv)
  with i om show ?thesis
    by (auto simp add: on_match_def Let_def split: prod.splits if_splits sum.splits)
       (metis fst_conv Inl_Inr_False)
qed

lemma lib_compare_faces_length [simp]:
  "length (lib_compare_faces distance known q tolerance) = length known"
  by (simp add: lib_compare_faces_def face_distance_def)

lemma index_matches:
  "True \<in> set (lib_compare_faces distance known q tolerance) \<Longrightarrow>
   index (lib_compare_faces distance known q tolerance) True < length known"
  using index_less_iff [of "lib_compare_faces distance known q tolerance" True] by simp

lemma match_loop_no_index_error:
  "length names = length known \<Longrightarrow>
   fst (match_loop distance post known names qs) \<noteq> Inl IndexError"
proof (induction qs)
  case Nil
  then show ?case by simp
next
  case (Cons q qs)
  show ?case
  proof (cases "True \<in> set (lib_compare_faces distance known q TOLERANCE)")
    case True
    then have "index (lib_compare_faces distance known q TOLERANCE) True < length names"
      using Cons.prems index_matches [of distance known q TOLERANCE] by simp
    then show ?thesis
      using True on_match_no_index_error [of "lib_compare_faces distance known q TOLERANCE"
              names post "face_distance distance known q"]
      by (auto simp add: Let_def split: prod.splits)
  next
    case False
    then show ?thesis using Cons by (auto simp add: Let_def split: prod.splits)
  qed
qed

lemma match_loop_no_exception:
  "length names = length known \<Longrightarrow> \<forall>a<MAX_RETRIES. \<not> escapes (post a) \<Longrightarrow>
   \<exists>resp. fst (match_loop distance post known names qs) = Inr resp"
proof (induction qs)
  case Nil
  then show ?case by simp
next
  case (Cons q qs)
  show ?case
  proof (cases "True \<in> set (lib_compare_faces distance known q TOLERANCE)")
    case True
    then have "index (lib_compare_faces distance known q TOLERANCE) True < length names"
      using Cons.prems index_matches [of distance known q TOLERANCE] by simp
    then show ?thesis
      using True Cons.prems(2)
        on_match_in_range [of "lib_compare_faces distance known q TOLERANCE" names post
              "face_distance distance known q"]
      by (auto simp add: Let_def split: prod.splits)
  next
    case False
    then show ?thesis using Cons by (auto simp add: Let_def split: prod.splits)
  qed
qed

text \<open>
  Claim C10. The two lists the loader returns have the same length. So for every query
  the position of the first true flag, when there is one, is a valid index into the
  names, and the match loop never ends in an IndexError, whatever the downstream
  endpoint does; when no exception leaves the notifier, the loop ends in a response.
\<close>

theorem gallery_lists_in_step:
  assumes "load_known_faces load dir = Inr (encs, names)"
  shows "length encs = length names \<and>
         (\<forall>q. True \<in> set (lib_compare_faces distance encs q TOLERANCE) \<longrightarrow>
              index (lib_compare_faces distance encs q TOLERANCE) True < length names) \<and>
         (\<forall>qs. fst (match_loop distance post encs names qs) \<noteq> Inl IndexError) \<and>
         ((\<forall>a<MAX_RETRIES. \<not> escapes (post a)) \<longrightarrow>
            (\<forall>qs. \<exists>resp. fst (match_loop distance post encs names qs) = Inr resp))"
proof -
  from assms have len: "length encs = length names" by (rule load_lengths)
  then show ?thesis
    using match_loop_no_exception [of names encs post distance]
      match_loop_no_index_error [of names encs distance post]
      index_matches [of distance encs _ TOLERANCE]
    by simp
qed

theorem gallery_lists_in_step_witness:
  "length [1, 1, 3::nat] = length [''alice'', ''alice'', ''bob''] \<and>
   index (lib_compare_faces (\<lambda>k q. if k = 3 then double_0_1 else 9 / 10) [1, 1, 3::nat] (0::nat)
            TOLERANCE) True < length [''alice'', ''alice'', ''bob''] \<and>
   fst (match_loop (\<lambda>k q. if k = 3 then double_0_1 else 9 / 10) deeply_nested_200
        [1, 1, 3::nat] [''alice'', ''alice'', ''bob''] [0::nat]) \<noteq> Inl IndexError \<and>
   (\<exists>resp. fst (match_loop (\<lambda>k q. if k = 3 then double_0_1 else 9 / 10) unreachable
        [1, 1, 3::nat] [''alice'', ''alice'', ''bob''] [0::nat]) = Inr resp)"
proof -
  note g = gallery_lists_in_step [OF example_gallery,
      of "\<lambda>k q. if k = 3 then double_0_1 else 9 / 10"]
  have t: "True \<in> set (lib_compare_faces (\<lambda>k q. if k = 3 then double_0_1 else 9 / 10)
             [1, 1, 3::nat] (0::nat) TOLERANCE)"
    using doubles_within_tolerance by (simp add: lib_compare_faces_def face_distance_def)
  have u: "\<forall>a<MAX_RETRIES. \<not> escapes (unreachable a)"
    by (simp add: unreachable_def)
  from g [of deeply_nested_200] g [of unreachable] t u show ?thesis by blast
qed

text \<open>The lookup does fail when the two lists are out of step.\<close>

lemma out_of_step_gallery_fails:
  "compare_faces one_face (\<lambda>k q. 3 / 10) ok_200 [1::nat] []
     (Some ''jpeg-bytes'') =
   (\<lparr>body = [(''status'', JStr ''error''),
             (''message'', JStr ''Error processing the image: list index out of range'')],
     http_status = 500\<rparr>, [Compare 0])"
  by (simp add: compare_faces_def process_image_def on_match_def lib_compare_faces_def
        face_distance_def TOLERANCE_def error_response_def one_face_def Let_def)

end
